theory Spec2Isabelle
  imports Complex_Main "HOL-Library.Multiset"
begin

section \<open>Numbers and exceptions\<close>

text \<open>
  The program is \<^verbatim>\<open>src/main.py\<close>. Its numbers are Python floats, IEEE doubles. A float
  is modelled by the real number it stands for, and an operation of the program by the exact
  operation followed by \<open>fl\<close>, the rounding to the nearest number with a significand of
  53 bits, ties to the even significand. The exponent is not bounded: overflow to infinity
  and underflow (subnormal numbers, rounding to zero) are outside the model.

  Rounding is written out where the program's numbers are what a claim is about: in the
  mean displacement (lines 49-60) and in the final estimate (lines 123-130). The solver
  (lines 62-64 and 109-114) is kept in exact arithmetic: its operations are \<open>py_truediv\<close>
  and \<open>math_sqrt\<close> without rounding. Its tests compare with 0, and rounding without
  underflow maps only 0 to 0 and keeps the sign.

  What is kept of Python's arithmetic everywhere is its control flow: \<^verbatim>\<open>/\<close> raises
  ZeroDivisionError on a zero divisor and \<^verbatim>\<open>math.sqrt\<close> raises ValueError on a
  negative argument. An exception is a value of \<open>exn\<close>, and a computation that may raise
  returns \<open>exn + 'a\<close> with \<open>Inl\<close> for the exception.
\<close>

datatype exn =
    Cv2Error
  | ZeroDivisionError
  | ValueError
  | IndexError
  | NameError
  | OSError
  | CameraError

text \<open>The two operations of the solver, exact.\<close>

definition py_truediv :: "real \<Rightarrow> real \<Rightarrow> exn + real" where
  "py_truediv a b = (if b = 0 then Inl ZeroDivisionError else Inr (a / b))"

definition math_sqrt :: "real \<Rightarrow> exn + real" where
  "math_sqrt x = (if x < 0 then Inl ValueError else Inr (sqrt x))"

text \<open>
  Rounding to nearest, ties to even: \<open>round_half_even\<close> on the integers, and \<open>fl\<close> on
  the doubles. For \<open>x \<noteq> 0\<close> with \<open>2 ^ e \<le> \<bar>x\<bar> < 2 ^ (e + 1)\<close> the doubles around
  \<open>x\<close> are the multiples of \<open>2 ^ (e - 52)\<close>.
\<close>

definition round_half_even :: "real \<Rightarrow> int" where
  "round_half_even y =
     (let f = \<lfloor>y\<rfloor>; r = y - of_int f
      in if r < 1 / 2 then f else if r > 1 / 2 then f + 1
         else if even f then f else f + 1)"

definition float_exponent :: "real \<Rightarrow> int" where
  "float_exponent x = \<lfloor>log 2 \<bar>x\<bar>\<rfloor>"

definition float_ulp :: "real \<Rightarrow> real" where
  "float_ulp x = 2 powr real_of_int (float_exponent x - 52)"

definition fl :: "real \<Rightarrow> real" where
  "fl x = (if x = 0 then 0 else of_int (round_half_even (x / float_ulp x)) * float_ulp x)"

definition float_eps :: real where
  "float_eps = 1 / 2 ^ 53"

text \<open>Python's \<^verbatim>\<open>/\<close> on floats, rounded.\<close>

definition float_truediv :: "real \<Rightarrow> real \<Rightarrow> exn + real" where
  "float_truediv a b = (if b = 0 then Inl ZeroDivisionError else Inr (fl (a / b)))"

text \<open>A sum taken from the left, starting at 0, every addition rounded: the loop of
  lines 52-56, and the builtin \<^verbatim>\<open>sum\<close> of line 124 on a list of floats (CPython
  before 3.12; the \<^verbatim>\<open>picamera\<close> platform of the program predates it).\<close>

definition float_sum :: "real list \<Rightarrow> real" where
  "float_sum xs = foldl (\<lambda>acc x. fl (acc + x)) 0 xs"

text \<open>\<^verbatim>\<open>math.hypot\<close>, taken as correctly rounded.\<close>

definition math_hypot :: "real \<Rightarrow> real \<Rightarrow> real" where
  "math_hypot x y = fl (sqrt (x * x + y * y))"

text \<open>Python list indexing: a negative index counts from the end, anything else out of
  range raises IndexError.\<close>

definition py_index :: "'a list \<Rightarrow> int \<Rightarrow> exn + 'a" where
  "py_index xs i =
     (if 0 \<le> i \<and> i < int (length xs) then Inr (xs ! nat i)
      else if i < 0 \<and> - int (length xs) \<le> i then Inr (xs ! nat (int (length xs) + i))
      else Inl IndexError)"

section \<open>Matching and mean displacement\<close>

type_synonym point = "real \<times> real"

text \<open>A \<^verbatim>\<open>cv2.DMatch\<close>: the indices of the two keypoints and the descriptor
  distance.\<close>

record dmatch =
  queryIdx :: int
  trainIdx :: int
  distance :: real

text \<open>
  \<^verbatim>\<open>calculate_matches\<close> (lines 29-33). The brute-force matcher is an external
  capability: its answer for this pair of descriptor sets, a list of matches or an exception,
  is the argument. \<^verbatim>\<open>sorted\<close> is a stable sort on the key, as \<open>sort_key\<close> is.
\<close>

definition calculate_matches :: "exn + dmatch list \<Rightarrow> exn + dmatch list" where
  "calculate_matches brute_force_match =
     (case brute_force_match of
        Inl x \<Rightarrow> Inl x
      | Inr matches \<Rightarrow> Inr (sort_key distance matches))"

text \<open>\<^verbatim>\<open>find_matching_coordinates\<close> (lines 36-46). A keypoint is represented by its
  \<^verbatim>\<open>pt\<close>. The loop appends to both coordinate lists.\<close>

fun matching_loop ::
  "point list \<Rightarrow> point list \<Rightarrow> dmatch list \<Rightarrow> point list \<Rightarrow> point list
     \<Rightarrow> exn + (point list \<times> point list)" where
  "matching_loop keypoints_1 keypoints_2 [] coordinates_1 coordinates_2 =
     Inr (coordinates_1, coordinates_2)"
| "matching_loop keypoints_1 keypoints_2 (m # rest) coordinates_1 coordinates_2 =
     (case py_index keypoints_1 (queryIdx m) of
        Inl x \<Rightarrow> Inl x
      | Inr p1 \<Rightarrow>
          (case py_index keypoints_2 (trainIdx m) of
             Inl x \<Rightarrow> Inl x
           | Inr p2 \<Rightarrow>
               matching_loop keypoints_1 keypoints_2 rest
                 (coordinates_1 @ [p1]) (coordinates_2 @ [p2])))"

definition find_matching_coordinates ::
  "point list \<Rightarrow> point list \<Rightarrow> dmatch list \<Rightarrow> exn + (point list \<times> point list)" where
  "find_matching_coordinates keypoints_1 keypoints_2 matches =
     matching_loop keypoints_1 keypoints_2 matches [] []"

text \<open>\<^verbatim>\<open>calculate_mean_distance\<close> (lines 49-60): the loop adds the distances from
  the left, starting at 0, in double arithmetic; the division is guarded by the length
  test.\<close>

definition pair_distance :: "point \<times> point \<Rightarrow> real" where
  "pair_distance coordinate =
     (let x_difference = fl (fst (fst coordinate) - fst (snd coordinate));
          y_difference = fl (snd (fst coordinate) - snd (snd coordinate))
      in math_hypot x_difference y_difference)"

definition calculate_mean_distance :: "point list \<Rightarrow> point list \<Rightarrow> exn + real" where
  "calculate_mean_distance coordinates_1 coordinates_2 =
     (let merged_coordinates = zip coordinates_1 coordinates_2;
          all_distances =
            foldl (\<lambda>all_distances coordinate. fl (all_distances + pair_distance coordinate))
              0 merged_coordinates
      in if length merged_coordinates \<noteq> 0
         then float_truediv all_distances (real (length merged_coordinates))
         else Inr 0)"

section \<open>The height-velocity solver\<close>

text \<open>The default arguments of \<^verbatim>\<open>calculate_v_from_h\<close> (line 63) and the camera
  constants of \<^verbatim>\<open>main\<close> (lines 68-70).\<close>

definition G_default :: real where "G_default = 667430 / 10 ^ 16"
definition R_default :: real where "R_default = 6378100"
definition M_default :: real where "M_default = 59722 * 10 ^ 20"

definition d_focale :: real where "d_focale = 5 / 1000"
definition dim_sensore_x :: real where "dim_sensore_x = 6287 / 1000000"
definition n_pixel_x :: real where "n_pixel_x = 4056"
definition n_iteration :: nat where "n_iteration = 8"

definition calculate_v_from_h :: "real \<Rightarrow> real \<Rightarrow> real \<Rightarrow> real \<Rightarrow> exn + real" where
  "calculate_v_from_h h G R M =
     (case py_truediv (G * M) (R + h) of
        Inl x \<Rightarrow> Inl x
      | Inr q \<Rightarrow> math_sqrt q)"

text \<open>
  The \<^verbatim>\<open>for\<close> loop of lines 111-114, with the number of rounds still to run.
  \<open>v\<close> is unbound before the first round, hence an option.
\<close>

fun solver_rounds ::
  "nat \<Rightarrow> real \<Rightarrow> real \<Rightarrow> real option \<Rightarrow> real \<Rightarrow> exn + (real option \<times> real)" where
  "solver_rounds 0 average_feature_distance time_difference v h = Inr (v, h)"
| "solver_rounds (Suc n) average_feature_distance time_difference v h =
     (case calculate_v_from_h h G_default R_default M_default of
        Inl x \<Rightarrow> Inl x
      | Inr v' \<Rightarrow>
          if average_feature_distance \<noteq> 0
          then (case py_truediv v' (dim_sensore_x * average_feature_distance) of
                  Inl x \<Rightarrow> Inl x
                | Inr q \<Rightarrow>
                    solver_rounds n average_feature_distance time_difference (Some v')
                      (q * d_focale * n_pixel_x * time_difference))
          else solver_rounds n average_feature_distance time_difference (Some v') h)"

text \<open>Lines 109-114 and the read of \<open>v\<close> and \<open>h\<close> in lines 116-117: the velocity and the
  altitude that are appended.\<close>

definition solver :: "real \<Rightarrow> real \<Rightarrow> exn + (real \<times> real)" where
  "solver average_feature_distance time_difference =
     (case solver_rounds n_iteration average_feature_distance time_difference None 400000 of
        Inl x \<Rightarrow> Inl x
      | Inr (None, h) \<Rightarrow> Inl NameError
      | Inr (Some v, h) \<Rightarrow> Inr (v, h))"

text \<open>Lines 106-107: the mean displacement measured on the matched keypoints.\<close>

definition measure_displacement :: "point list \<Rightarrow> point list \<Rightarrow> dmatch list \<Rightarrow> exn + real" where
  "measure_displacement keypoints_1 keypoints_2 matches =
     (case find_matching_coordinates keypoints_1 keypoints_2 matches of
        Inl x \<Rightarrow> Inl x
      | Inr (coordinates_1, coordinates_2) \<Rightarrow>
          calculate_mean_distance coordinates_1 coordinates_2)"

text \<open>The body of the \<^verbatim>\<open>try\<close> block, lines 105-114.\<close>

definition try_body ::
  "point list \<Rightarrow> point list \<Rightarrow> exn + dmatch list \<Rightarrow> real \<Rightarrow> exn + (real \<times> real)" where
  "try_body keypoints_1 keypoints_2 brute_force_match time_difference =
     (case calculate_matches brute_force_match of
        Inl x \<Rightarrow> Inl x
      | Inr matches \<Rightarrow>
          (case measure_displacement keypoints_1 keypoints_2 matches of
             Inl x \<Rightarrow> Inl x
           | Inr average_feature_distance \<Rightarrow>
               solver average_feature_distance time_difference))"

section \<open>The acquisition loop\<close>

text \<open>
  A photo path \<^verbatim>\<open>{base_folder}/img/photo_{k}.jpg\<close> is represented by its index.
  Times are \<^verbatim>\<open>datetime\<close> values, counted in microseconds.
\<close>

datatype path = Photo int

record loop_state =
  k_counter :: int
  now_time :: int
  images_deque :: "path list"
  unlinked :: "path list"
  h_list :: "real list"
  v_list :: "real list"

text \<open>
  What the world answers during one iteration: the reading of
  \<^verbatim>\<open>datetime.now()\<close> (line 89), whether \<^verbatim>\<open>os.unlink\<close> and
  \<^verbatim>\<open>cam.capture\<close> raise, the keypoints found by \<^verbatim>\<open>convert_to_cv\<close>
  and \<^verbatim>\<open>calculate_features\<close> (or the exception they raise), and the answer of the
  brute-force matcher on the two descriptor sets.
\<close>

record iter_env =
  clock :: int
  unlink_raises :: "exn option"
  capture_raises :: "exn option"
  detected :: "exn + (point list \<times> point list)"
  bf_match :: "exn + dmatch list"

text \<open>Lines 90-92: the oldest path leaves the deque and its file is deleted;
  \<open>unlinked\<close> logs the deleted files in order.\<close>

definition evict_oldest ::
  "path list \<Rightarrow> path list \<Rightarrow> iter_env \<Rightarrow> exn + (path list \<times> path list)" where
  "evict_oldest dq ul e =
     (if length dq \<ge> 42
      then (case dq of
              [] \<Rightarrow> Inl IndexError
            | oldest # rest \<Rightarrow>
                (case unlink_raises e of
                   Some x \<Rightarrow> Inl x
                 | None \<Rightarrow> Inr (rest, ul @ [oldest])))
      else Inr (dq, ul))"

text \<open>Lines 98-118, run when \<open>k \<noteq> 0\<close>. Conversion and feature detection stand before
  the \<^verbatim>\<open>try\<close>; the handler catches \<^verbatim>\<open>cv2.error\<close> and
  \<^verbatim>\<open>ZeroDivisionError\<close> only.\<close>

definition compare_frames :: "loop_state \<Rightarrow> int \<Rightarrow> iter_env \<Rightarrow> exn + loop_state" where
  "compare_frames st previous_time e =
     (let time_difference = real_of_int (now_time st - previous_time) / 1000000
      in case detected e of
           Inl x \<Rightarrow> Inl x
         | Inr (keypoints_1, keypoints_2) \<Rightarrow>
             (case try_body keypoints_1 keypoints_2 (bf_match e) time_difference of
                Inr (v, h) \<Rightarrow> Inr (st\<lparr>h_list := h_list st @ [h], v_list := v_list st @ [v]\<rparr>)
              | Inl x \<Rightarrow>
                  if x = Cv2Error \<or> x = ZeroDivisionError then Inr st else Inl x))"

text \<open>One pass through the body of the \<^verbatim>\<open>while\<close> loop, lines 86-118.\<close>

definition iteration :: "loop_state \<Rightarrow> iter_env \<Rightarrow> exn + loop_state" where
  "iteration st e =
     (let k' = k_counter st + 1;
          image_path = Photo k';
          previous_time = now_time st
      in case evict_oldest (images_deque st) (unlinked st) e of
           Inl x \<Rightarrow> Inl x
         | Inr (dq, ul) \<Rightarrow>
             (case capture_raises e of
                Some x \<Rightarrow> Inl x
              | None \<Rightarrow>
                  (let st1 = st\<lparr>k_counter := k', now_time := clock e,
                                images_deque := dq @ [image_path], unlinked := ul\<rparr>
                   in if k' \<noteq> 0 then compare_frames st1 previous_time e else Inr st1)))"

text \<open>
  The \<^verbatim>\<open>while\<close> loop (line 85) over the answers of the world, one per iteration.
  \<open>Done\<close>: the 9 minutes are over. \<open>Raised\<close>: an exception left the loop.
  \<open>Running\<close>: the listed iterations are all done and the loop is still inside its 9 minutes.
\<close>

datatype outcome = Done loop_state | Raised exn | Running loop_state

definition nine_minutes :: int where
  "nine_minutes = 9 * 60 * 1000000"

fun acquisition_loop :: "int \<Rightarrow> loop_state \<Rightarrow> iter_env list \<Rightarrow> outcome" where
  "acquisition_loop start_time st [] =
     (if now_time st < start_time + nine_minutes then Running st else Done st)"
| "acquisition_loop start_time st (e # es) =
     (if now_time st < start_time + nine_minutes
      then (case iteration st e of
              Inl x \<Rightarrow> Raised x
            | Inr st' \<Rightarrow> acquisition_loop start_time st' es)
      else Done st)"

fun final_state :: "outcome \<Rightarrow> loop_state option" where
  "final_state (Done st) = Some st"
| "final_state (Running st) = Some st"
| "final_state (Raised x) = None"

section \<open>The final estimate\<close>

text \<open>
  \<^verbatim>\<open>"{:.4f}".format\<close> of a float: the exact value of the float rounded to the nearest
  multiple of 1/10000, ties to the even one, written with a sign when negative, the integer
  part in decimal, a point and four digits.
\<close>

definition digit_char :: "nat \<Rightarrow> char" where
  "digit_char d = ''0123456789'' ! (d mod 10)"

fun decimal :: "nat \<Rightarrow> string" where
  "decimal n = (if n < 10 then [digit_char n] else decimal (n div 10) @ [digit_char (n mod 10)])"

declare decimal.simps [simp del]

definition format_4f :: "real \<Rightarrow> string" where
  "format_4f x =
     (let q = nat (round_half_even (\<bar>x\<bar> * 10000))
      in (if x < 0 then ''-'' else '''') @ decimal (q div 10000) @ ''.'' @
         [digit_char (q div 1000), digit_char (q div 100), digit_char (q div 10), digit_char q])"

text \<open>Lines 123-133: the text that is written. The sum, the two quotients and the literal
  \<^verbatim>\<open>7667.7\<close> are floats.\<close>

definition finalize :: "real list \<Rightarrow> exn + string" where
  "finalize vs =
     (case (if length vs > 0
            then float_truediv (float_sum vs) (real (length vs))
            else Inr (fl (76677 / 10))) of
        Inl x \<Rightarrow> Inl x
      | Inr estimate_mps \<Rightarrow>
          (let estimate_kmps = fl (estimate_mps / 1000);
               estimate_kmps_formatted = format_4f estimate_kmps
           in Inr estimate_kmps_formatted))"

text \<open>
  What a run of \<^verbatim>\<open>main\<close> leaves behind: the exception that ended it, if any, the
  number of calls of \<^verbatim>\<open>cam.close()\<close>, and the texts written to
  \<^verbatim>\<open>result.txt\<close>, in order. The file is opened with mode \<^verbatim>\<open>'w'\<close>: a text
  that is written is the whole content of the file.
\<close>

record world =
  raised :: "exn option"
  cam_close_calls :: nat
  result_txt :: "string list"

definition initial_state :: "real \<Rightarrow> int \<Rightarrow> loop_state" where
  "initial_state h_seed now0 =
     \<lparr>k_counter = - 1, now_time = now0, images_deque = [], unlinked = [],
      h_list = [h_seed], v_list = []\<rparr>"

text \<open>Line 121, and lines 135-137: opening or writing the file may raise, and then no text
  is written.\<close>

definition cam_close :: "world \<Rightarrow> world" where
  "cam_close w = w\<lparr>cam_close_calls := cam_close_calls w + 1\<rparr>"

definition write_result :: "exn option \<Rightarrow> string \<Rightarrow> world \<Rightarrow> world" where
  "write_result write_raises output_string w =
     (case write_raises of
        Some x \<Rightarrow> w\<lparr>raised := Some x\<rparr>
      | None \<Rightarrow> w\<lparr>result_txt := result_txt w @ [output_string]\<rparr>)"

text \<open>
  \<^verbatim>\<open>main\<close> (lines 67-137), given whether writing the result file raises, the seed of
  \<open>h_list\<close> (line 82), the two first clock readings (lines 77 and 80) and the answers of
  the world to the iterations. \<open>None\<close>: the loop is still running when the listed answers
  are used up. An exception that leaves the loop ends the run before line 121.
\<close>

definition main_with ::
  "exn option \<Rightarrow> real \<Rightarrow> int \<Rightarrow> int \<Rightarrow> iter_env list \<Rightarrow> world option" where
  "main_with write_raises h_seed start_time now0 envs =
     (let w0 = \<lparr>raised = None, cam_close_calls = 0, result_txt = []\<rparr>
      in case acquisition_loop start_time (initial_state h_seed now0) envs of
           Running st \<Rightarrow> None
         | Raised x \<Rightarrow> Some (w0\<lparr>raised := Some x\<rparr>)
         | Done st \<Rightarrow>
             (let w1 = cam_close w0
              in case finalize (v_list st) of
                   Inl x \<Rightarrow> Some (w1\<lparr>raised := Some x\<rparr>)
                 | Inr output_string \<Rightarrow> Some (write_result write_raises output_string w1)))"

text \<open>The runs in which the result file can be written, and among them the program's own,
  with the seed 418000.\<close>

definition main_from :: "real \<Rightarrow> int \<Rightarrow> int \<Rightarrow> iter_env list \<Rightarrow> world option" where
  "main_from h_seed start_time now0 envs = main_with None h_seed start_time now0 envs"

definition main :: "int \<Rightarrow> int \<Rightarrow> iter_env list \<Rightarrow> world option" where
  "main start_time now0 envs = main_from 418000 start_time now0 envs"

section \<open>The solver as the specification words it\<close>

text \<open>
  The specification's fixed-point iteration, written from its words and not from the code:
  the altitude after \<open>i\<close> rounds from the seed \<open>h0\<close>, where a round computes
  \<open>v = sqrt (G M / (R + h))\<close> and, when the displacement \<open>d\<close> is not 0, sets
  \<open>h = v focalLength pixelCount dt / (sensorWidth d)\<close>; and the velocity computed in
  round \<open>i\<close>, from the altitude left by round \<open>i - 1\<close>.
\<close>

primrec spec_altitude :: "real \<Rightarrow> real \<Rightarrow> real \<Rightarrow> nat \<Rightarrow> real" where
  "spec_altitude d dt h0 0 = h0"
| "spec_altitude d dt h0 (Suc i) =
     (let h = spec_altitude d dt h0 i;
          v = sqrt (G_default * M_default / (R_default + h))
      in if d \<noteq> 0 then v * d_focale * n_pixel_x * dt / (dim_sensore_x * d) else h)"

definition spec_velocity :: "real \<Rightarrow> real \<Rightarrow> real \<Rightarrow> nat \<Rightarrow> real" where
  "spec_velocity d dt h0 i =
     sqrt (G_default * M_default / (R_default + spec_altitude d dt h0 (i - 1)))"

section \<open>Notions used in the proofs\<close>

text \<open>One round's new altitude.\<close>

definition next_altitude :: "real \<Rightarrow> real \<Rightarrow> real \<Rightarrow> real" where
  "next_altitude d dt h =
     (if d \<noteq> 0
      then sqrt (G_default * M_default / (R_default + h)) * d_focale * n_pixel_x * dt /
           (dim_sensore_x * d)
      else h)"

text \<open>The matches whose two indices are in range, and the pair of points of a match.\<close>

definition valid_match :: "point list \<Rightarrow> point list \<Rightarrow> dmatch \<Rightarrow> bool" where
  "valid_match k1 k2 m =
     (isl (py_index k1 (queryIdx m)) = False \<and> isl (py_index k2 (trainIdx m)) = False)"

definition match_points :: "point list \<Rightarrow> point list \<Rightarrow> dmatch \<Rightarrow> point \<times> point" where
  "match_points k1 k2 m = (projr (py_index k1 (queryIdx m)), projr (py_index k2 (trainIdx m)))"

text \<open>
  Answers of the world for one iteration in which neither \<^verbatim>\<open>os.unlink\<close> nor
  \<^verbatim>\<open>cam.capture\<close> raises, and a matcher answer with one match between the first
  keypoints of the two frames: the inputs of the examples.
\<close>

definition world_answers ::
  "int \<Rightarrow> exn + (point list \<times> point list) \<Rightarrow> exn + dmatch list \<Rightarrow> iter_env" where
  "world_answers t det bf =
     \<lparr>clock = t, unlink_raises = None, capture_raises = None, detected = det, bf_match = bf\<rparr>"

definition one_match :: "dmatch list" where
  "one_match = [\<lparr>queryIdx = 0, trainIdx = 0, distance = 0\<rparr>]"

text \<open>A match between the keypoints of index \<open>i\<close> with descriptor distance \<open>d\<close>, and half
  the spacing of the doubles at 2048: the inputs of the examples on rounding.\<close>

definition ranked :: "int \<Rightarrow> real \<Rightarrow> dmatch" where
  "ranked i d = \<lparr>queryIdx = i, trainIdx = i, distance = d\<rparr>"

definition tiny :: real where
  "tiny = 1 / 2 ^ 42"

text \<open>A loop state and an outcome without the altitude history.\<close>

definition forget_h :: "loop_state \<Rightarrow> loop_state" where
  "forget_h st = st\<lparr>h_list := []\<rparr>"

fun outcome_forget_h :: "outcome \<Rightarrow> outcome" where
  "outcome_forget_h (Done st) = Done (forget_h st)"
| "outcome_forget_h (Running st) = Running (forget_h st)"
| "outcome_forget_h (Raised x) = Raised x"

text \<open>Reading a string of decimal digits back as a number.\<close>

definition digit_value :: "char \<Rightarrow> nat" where
  "digit_value c = of_char c - 48"

definition decimal_value :: "string \<Rightarrow> nat" where
  "decimal_value s = foldl (\<lambda>a c. 10 * a + digit_value c) 0 s"

text \<open>The invariant of the frame buffer at the end of an iteration: the deque holds the
  last (at most 42) photos up to the current one, in order, and the deleted files are all
  the older ones, in order.\<close>

definition buffer_inv :: "loop_state \<Rightarrow> bool" where
  "buffer_inv st =
     (- 1 \<le> k_counter st
      \<and> images_deque st = map Photo [max 0 (k_counter st - 41) .. k_counter st]
      \<and> unlinked st = map Photo [0 .. k_counter st - 42])"

text \<open>An iteration in which the matcher raises \<^verbatim>\<open>cv2.error\<close> and the clock stands
  still.\<close>

definition quiet :: iter_env where
  "quiet = world_answers 0 (Inr ([], [])) (Inl Cv2Error)"

section \<open>Rounding\<close>

lemma round_half_even_int: "round_half_even (of_int n) = n"
  by (simp add: round_half_even_def)

lemma round_half_even_close: "\<bar>real_of_int (round_half_even y) - y\<bar> \<le> 1 / 2"
  unfolding round_half_even_def Let_def by (auto split: if_splits)

lemma round_half_even_nonneg: "0 \<le> y \<Longrightarrow> 0 \<le> round_half_even y"
  unfolding round_half_even_def Let_def by (auto split: if_splits)

lemma round_half_even_near:
  assumes "\<bar>y - of_int n\<bar> < 1 / 2"
  shows "round_half_even y = n"
proof -
  have "\<bar>real_of_int (round_half_even y) - of_int n\<bar> < 1"
    using round_half_even_close [of y] assms by linarith
  then have "\<bar>round_half_even y - n\<bar> < 1"
    by (metis of_int_1 of_int_abs of_int_diff of_int_less_iff)
  then show ?thesis by simp
qed

lemma float_exponent_bounds:
  assumes "x \<noteq> 0"
  shows "2 powr real_of_int (float_exponent x) \<le> \<bar>x\<bar>"
    and "\<bar>x\<bar> < 2 powr real_of_int (float_exponent x + 1)"
  using floor_log_eq_powr_iff [of "\<bar>x\<bar>" 2 "float_exponent x"] assms
  by (simp_all add: float_exponent_def)

lemma float_exponent_eq:
  assumes "2 powr real_of_int e \<le> \<bar>x\<bar>" and "\<bar>x\<bar> < 2 powr real_of_int (e + 1)"
  shows "float_exponent x = e"
proof -
  have "0 < \<bar>x\<bar>"
    using assms(1) powr_gt_zero [of 2 "real_of_int e"] by linarith
  then show ?thesis
    using floor_log_eq_powr_iff [of "\<bar>x\<bar>" 2 e] assms by (simp add: float_exponent_def)
qed

lemma float_ulp_pos: "0 < float_ulp x"
  by (simp add: float_ulp_def)

lemma float_ulp_le: "x \<noteq> 0 \<Longrightarrow> float_ulp x \<le> \<bar>x\<bar> / 2 ^ 52"
proof -
  assume x: "x \<noteq> 0"
  have "float_ulp x = 2 powr real_of_int (float_exponent x) / 2 ^ 52"
    by (simp add: float_ulp_def powr_diff)
  then show ?thesis
    using float_exponent_bounds(1) [OF x] by (simp add: divide_right_mono)
qed

lemma fl_zero: "fl 0 = 0"
  by (simp add: fl_def)

lemma float_eps_bounds: "0 < float_eps" "float_eps < 1"
  by (simp_all add: float_eps_def)

lemma fl_error: "\<bar>fl x - x\<bar> \<le> \<bar>x\<bar> * float_eps"
proof (cases "x = 0")
  case True
  then show ?thesis by (simp add: fl_def)
next
  case False
  let ?u = "float_ulp x"
  have u: "0 < ?u" by (rule float_ulp_pos)
  have "fl x - x = (of_int (round_half_even (x / ?u)) - x / ?u) * ?u"
    using False u by (simp add: fl_def field_simps)
  then have "\<bar>fl x - x\<bar> = \<bar>of_int (round_half_even (x / ?u)) - x / ?u\<bar> * ?u"
    using u by (simp add: abs_mult)
  also have "\<dots> \<le> 1 / 2 * ?u"
    using round_half_even_close [of "x / ?u"] u by (intro mult_right_mono) simp_all
  also have "\<dots> \<le> 1 / 2 * (\<bar>x\<bar> / 2 ^ 52)"
    using float_ulp_le [OF False] by simp
  also have "\<dots> = \<bar>x\<bar> * float_eps"
    by (simp add: float_eps_def)
  finally show ?thesis .
qed

lemma fl_upper: "0 \<le> x \<Longrightarrow> fl x \<le> x * (1 + float_eps)"
  using fl_error [of x] by (simp add: abs_le_iff algebra_simps)

lemma fl_lower: "0 \<le> x \<Longrightarrow> x * (1 - float_eps) \<le> fl x"
  using fl_error [of x] by (simp add: abs_le_iff algebra_simps)

lemma fl_nonneg: "0 \<le> x \<Longrightarrow> 0 \<le> fl x"
proof -
  assume x: "0 \<le> x"
  then have "0 \<le> x * (1 - float_eps)"
    using float_eps_bounds by simp
  then show ?thesis
    using fl_lower [OF x] by linarith
qed

lemma fl_pos: "0 < x \<Longrightarrow> 0 < fl x"
proof -
  assume x: "0 < x"
  then have "0 < x * (1 - float_eps)"
    using float_eps_bounds by simp
  then show ?thesis
    using fl_lower [of x] x by linarith
qed

lemma fl_eq_zero_iff: "fl x = 0 \<longleftrightarrow> x = 0"
proof
  assume "fl x = 0"
  then have "\<bar>x\<bar> \<le> \<bar>x\<bar> * float_eps"
    using fl_error [of x] by simp
  then have "\<bar>x\<bar> * (1 - float_eps) \<le> 0"
    by (simp add: algebra_simps)
  moreover have "0 < 1 - float_eps"
    using float_eps_bounds by simp
  ultimately have "\<bar>x\<bar> \<le> 0"
    by (simp add: mult_le_0_iff)
  then show "x = 0" by simp
qed (simp add: fl_def)

lemma fl_exact:
  assumes "x = of_int m * 2 powr real_of_int k" and "\<bar>m\<bar> \<le> 2 ^ 53"
  shows "fl x = x"
proof (cases "x = 0")
  case True
  then show ?thesis by (simp add: fl_def)
next
  case False
  let ?e = "float_exponent x"
  have "2 powr real_of_int ?e \<le> \<bar>x\<bar>"
    by (rule float_exponent_bounds(1) [OF False])
  also have "\<bar>x\<bar> = \<bar>real_of_int m\<bar> * 2 powr real_of_int k"
    by (simp add: assms(1) abs_mult)
  also have "\<dots> \<le> 2 ^ 53 * 2 powr real_of_int k"
  proof -
    have "\<bar>real_of_int m\<bar> \<le> 2 ^ 53"
      using assms(2) by (metis of_int_abs of_int_le_iff of_int_numeral of_int_power)
    then show ?thesis by (intro mult_right_mono) simp_all
  qed
  also have "\<dots> = 2 powr real_of_int (k + 53)"
    by (simp add: powr_add powr_realpow [symmetric])
  finally have "real_of_int ?e \<le> real_of_int (k + 53)"
    by simp
  then have ek: "?e \<le> k + 53" by linarith
  have xu: "x / float_ulp x = of_int m * 2 powr real_of_int (k - ?e + 52)"
    by (simp add: assms(1) float_ulp_def powr_diff powr_add)
  have "\<exists>n. x / float_ulp x = of_int n"
  proof (cases "?e = k + 53")
    case True
    then have m: "\<bar>real_of_int m\<bar> * 2 powr real_of_int k \<ge> 2 powr real_of_int (k + 53)"
      using \<open>2 powr real_of_int ?e \<le> \<bar>x\<bar>\<close> by (simp add: assms(1) abs_mult)
    have "2 powr real_of_int (k + 53) = 2 ^ 53 * 2 powr real_of_int k"
      by (simp add: powr_add powr_realpow [symmetric])
    with m have "2 ^ 53 \<le> \<bar>real_of_int m\<bar>"
      by simp
    then have "2 ^ 53 \<le> \<bar>m\<bar>"
      by (metis of_int_abs of_int_le_iff of_int_numeral of_int_power)
    with assms(2) have "\<bar>m\<bar> = 2 ^ 53" by simp
    then have "m = 2 ^ 53 \<or> m = - (2 ^ 53)" by linarith
    moreover have "2 powr real_of_int (k - ?e + 52) = 1 / 2"
      using True by (simp add: powr_minus_divide)
    ultimately show ?thesis
      using xu by (auto intro: exI [of _ "2 ^ 52"] exI [of _ "- (2 ^ 52)"])
  next
    case False
    with ek have "0 \<le> k - ?e + 52" by simp
    then obtain j where j: "k - ?e + 52 = int j"
      using nonneg_int_cases by blast
    have "2 powr real_of_int (k - ?e + 52) = 2 ^ j"
      by (simp add: j powr_realpow)
    then have "x / float_ulp x = of_int (m * 2 ^ j)"
      using xu by simp
    then show ?thesis by blast
  qed
  then obtain n where n: "x / float_ulp x = of_int n" by blast
  have "fl x = of_int n * float_ulp x"
    using False by (simp add: fl_def n round_half_even_int)
  also have "\<dots> = x"
    using n float_ulp_pos [of x] by (simp add: field_simps)
  finally show ?thesis .
qed

lemma fl_of_int: "\<bar>n\<bar> \<le> 2 ^ 53 \<Longrightarrow> fl (of_int n) = of_int n"
  using fl_exact [of "of_int n" n 0] by simp

lemma fl_eval:
  assumes "2 powr real_of_int e \<le> \<bar>x\<bar>" and "\<bar>x\<bar> < 2 powr real_of_int (e + 1)"
  shows "fl x = of_int (round_half_even (x / 2 powr real_of_int (e - 52))) * 2 powr real_of_int (e - 52)"
proof -
  have "0 < \<bar>x\<bar>"
    using assms(1) powr_gt_zero [of 2 "real_of_int e"] by linarith
  then have "x \<noteq> 0" by simp
  moreover have "float_exponent x = e"
    using assms by (rule float_exponent_eq)
  ultimately show ?thesis
    by (simp only: fl_def float_ulp_def if_False)
qed

lemma float_ulp_top: "2 powr real_of_int (float_exponent x + 1) = 2 ^ 53 * float_ulp x"
proof -
  have "real_of_int (float_exponent x + 1) = real_of_int (float_exponent x - 52) + 53"
    by simp
  then have "2 powr real_of_int (float_exponent x + 1) =
             2 powr real_of_int (float_exponent x - 52) * 2 powr 53"
    by (simp only: powr_add)
  also have "(2::real) powr 53 = 2 ^ 53"
    using powr_realpow [of 2 53] by simp
  finally show ?thesis
    by (simp only: float_ulp_def mult.commute)
qed

lemma int_abs_bound:
  fixes n :: int
  assumes "\<bar>real_of_int n\<bar> < 2 ^ 53 + 1"
  shows "\<bar>n\<bar> \<le> 2 ^ 53"
proof -
  have "real_of_int \<bar>n\<bar> < real_of_int (2 ^ 53 + 1)"
    using assms by simp
  then have "\<bar>n\<bar> < 2 ^ 53 + 1"
    by (simp only: of_int_less_iff)
  then show ?thesis by simp
qed

lemma fl_fl: "fl (fl x) = fl x"
proof (cases "x = 0")
  case True
  then show ?thesis by (simp add: fl_def)
next
  case False
  let ?n = "round_half_even (x / float_ulp x)"
  have "\<bar>x\<bar> < 2 ^ 53 * float_ulp x"
    using float_exponent_bounds(2) [OF False] by (simp only: float_ulp_top)
  then have "\<bar>x\<bar> / float_ulp x < 2 ^ 53"
    using float_ulp_pos [of x] by (simp add: pos_divide_less_eq)
  then have "\<bar>x / float_ulp x\<bar> < 2 ^ 53"
    using float_ulp_pos [of x] by simp
  then have "\<bar>real_of_int ?n\<bar> < 2 ^ 53 + 1"
    using round_half_even_close [of "x / float_ulp x"] by linarith
  then have n: "\<bar>?n\<bar> \<le> 2 ^ 53"
    by (rule int_abs_bound)
  have "fl x = of_int ?n * 2 powr real_of_int (float_exponent x - 52)"
    using False by (simp only: fl_def float_ulp_def if_False)
  from fl_exact [OF this n] show ?thesis .
qed

lemma fl_5: "fl 5 = 5"
  using fl_of_int [of 5] by simp

section \<open>Mean displacement\<close>

lemma float_sum_snoc: "float_sum (xs @ [x]) = fl (float_sum xs + x)"
  by (simp add: float_sum_def)

lemma float_sum_map: "foldl (\<lambda>acc c. fl (acc + f c)) 0 xs = float_sum (map f xs)"
  by (simp add: float_sum_def foldl_map)

lemma float_sum_nonneg: "\<forall>x\<in>set xs. 0 \<le> x \<Longrightarrow> 0 \<le> float_sum xs"
proof (induction xs rule: rev_induct)
  case Nil
  then show ?case by (simp add: float_sum_def)
next
  case (snoc x xs)
  then have "0 \<le> float_sum xs + x" by simp
  then show ?case
    by (simp only: float_sum_snoc fl_nonneg)
qed

lemma float_sum_bounds:
  "\<forall>x\<in>set xs. 0 \<le> x \<Longrightarrow>
   (1 - float_eps) ^ length xs * sum_list xs \<le> float_sum xs
   \<and> float_sum xs \<le> (1 + float_eps) ^ length xs * sum_list xs"
proof (induction xs rule: rev_induct)
  case Nil
  show ?case by (simp add: float_sum_def)
next
  case (snoc x xs)
  have x: "0 \<le> x" and xs: "\<forall>y\<in>set xs. 0 \<le> y"
    using snoc.prems by simp_all
  have nn: "0 \<le> float_sum xs + x"
    using float_sum_nonneg [OF xs] x by simp
  have e: "0 < float_eps" "float_eps < 1"
    by (rule float_eps_bounds)+
  let ?n = "length xs"
  have lo: "(1 - float_eps) ^ ?n * sum_list xs \<le> float_sum xs"
    and hi: "float_sum xs \<le> (1 + float_eps) ^ ?n * sum_list xs"
    using snoc.IH [OF xs] by simp_all
  have "(1 - float_eps) ^ Suc ?n * (sum_list xs + x) \<le> fl (float_sum xs + x)"
  proof -
    have p: "(1 - float_eps) ^ ?n \<le> 1"
      using e by (intro power_le_one) simp_all
    have "(1 - float_eps) ^ ?n * (sum_list xs + x) \<le> (1 - float_eps) ^ ?n * sum_list xs + x"
      using mult_right_mono [OF p x] by (simp add: algebra_simps)
    also have "\<dots> \<le> float_sum xs + x"
      using lo by simp
    finally have "(1 - float_eps) ^ ?n * (sum_list xs + x) * (1 - float_eps)
        \<le> (float_sum xs + x) * (1 - float_eps)"
      using e by (intro mult_right_mono) simp_all
    also have "\<dots> \<le> fl (float_sum xs + x)"
      by (rule fl_lower [OF nn])
    finally show ?thesis
      by (simp add: mult.assoc mult.commute mult.left_commute)
  qed
  moreover have "fl (float_sum xs + x) \<le> (1 + float_eps) ^ Suc ?n * (sum_list xs + x)"
  proof -
    have p: "1 \<le> (1 + float_eps) ^ ?n"
      using e by (intro one_le_power) simp
    have "fl (float_sum xs + x) \<le> (float_sum xs + x) * (1 + float_eps)"
      by (rule fl_upper [OF nn])
    also have "\<dots> \<le> ((1 + float_eps) ^ ?n * sum_list xs + x) * (1 + float_eps)"
      using hi e by (intro mult_right_mono) simp_all
    also have "\<dots> \<le> ((1 + float_eps) ^ ?n * (sum_list xs + x)) * (1 + float_eps)"
    proof -
      have "(1 + float_eps) ^ ?n * sum_list xs + x \<le> (1 + float_eps) ^ ?n * (sum_list xs + x)"
        using mult_right_mono [OF p x] by (simp add: algebra_simps)
      then show ?thesis
        using e by (intro mult_right_mono) simp_all
    qed
    finally show ?thesis
      by (simp add: mult.assoc mult.commute mult.left_commute)
  qed
  ultimately show ?case
    by (simp add: float_sum_snoc)
qed

lemma float_mean_bounds:
  assumes "xs \<noteq> []" and "\<forall>x\<in>set xs. 0 \<le> x"
  shows "(1 - float_eps) ^ (length xs + 1) * (sum_list xs / real (length xs))
           \<le> fl (float_sum xs / real (length xs))
       \<and> fl (float_sum xs / real (length xs))
           \<le> (1 + float_eps) ^ (length xs + 1) * (sum_list xs / real (length xs))"
proof -
  let ?n = "real (length xs)"
  have n: "0 < ?n"
    using assms(1) by simp
  have e: "0 < float_eps" "float_eps < 1"
    by (rule float_eps_bounds)+
  have q: "0 \<le> float_sum xs / ?n"
    using float_sum_nonneg [OF assms(2)] by simp
  have lo: "(1 - float_eps) ^ length xs * sum_list xs \<le> float_sum xs"
    and hi: "float_sum xs \<le> (1 + float_eps) ^ length xs * sum_list xs"
    using float_sum_bounds [OF assms(2)] by simp_all
  have "(1 - float_eps) ^ length xs * sum_list xs / ?n * (1 - float_eps)
        \<le> float_sum xs / ?n * (1 - float_eps)"
    using lo n e by (intro mult_right_mono divide_right_mono) simp_all
  also have "\<dots> \<le> fl (float_sum xs / ?n)"
    by (rule fl_lower [OF q])
  finally have a: "(1 - float_eps) ^ (length xs + 1) * (sum_list xs / ?n) \<le> fl (float_sum xs / ?n)"
    by (simp add: mult.assoc mult.commute mult.left_commute)
  have "fl (float_sum xs / ?n) \<le> float_sum xs / ?n * (1 + float_eps)"
    by (rule fl_upper [OF q])
  also have "\<dots> \<le> (1 + float_eps) ^ length xs * sum_list xs / ?n * (1 + float_eps)"
    using hi n e by (intro mult_right_mono divide_right_mono) simp_all
  finally have b: "fl (float_sum xs / ?n) \<le> (1 + float_eps) ^ (length xs + 1) * (sum_list xs / ?n)"
    by (simp add: mult.assoc mult.commute mult.left_commute)
  show ?thesis
    using a b by simp
qed

lemma calculate_mean_distance_eq:
  "calculate_mean_distance c1 c2 =
     Inr (if zip c1 c2 = [] then 0
          else fl (float_sum (map pair_distance (zip c1 c2)) / real (length (zip c1 c2))))"
proof (cases "zip c1 c2 = []")
  case True
  then show ?thesis by (simp add: calculate_mean_distance_def)
next
  case False
  then have "length (zip c1 c2) \<noteq> 0" by (simp del: length_zip)
  with False show ?thesis
    by (simp add: calculate_mean_distance_def Let_def float_truediv_def float_sum_map
        del: length_zip)
qed

lemma pair_distance_euclid:
  "pair_distance ((x1, y1), (x2, y2)) = fl (sqrt ((fl (x1 - x2))\<^sup>2 + (fl (y1 - y2))\<^sup>2))"
  by (simp add: pair_distance_def math_hypot_def Let_def power2_eq_square)

lemma pair_distance_nonneg: "0 \<le> pair_distance c"
  by (simp add: pair_distance_def math_hypot_def Let_def fl_nonneg)

lemma pair_distance_fl: "fl (pair_distance c) = pair_distance c"
  by (simp add: pair_distance_def math_hypot_def Let_def fl_fl)

lemma pair_distance_row: "pair_distance ((x1, y), (x2, y)) = fl \<bar>fl (x1 - x2)\<bar>"
  by (simp add: pair_distance_def math_hypot_def Let_def fl_zero)

lemma py_index_Inl: "py_index xs i = Inl x \<Longrightarrow> x = IndexError"
  by (auto simp: py_index_def split: if_splits)

lemma matching_loop_char:
  "matching_loop k1 k2 ms a1 a2 =
     (if list_all (valid_match k1 k2) ms
      then Inr (a1 @ map (fst \<circ> match_points k1 k2) ms, a2 @ map (snd \<circ> match_points k1 k2) ms)
      else Inl IndexError)"
proof (induction ms arbitrary: a1 a2)
  case Nil
  then show ?case by simp
next
  case (Cons m ms)
  show ?case
    by (cases "py_index k1 (queryIdx m)"; cases "py_index k2 (trainIdx m)")
       (auto simp: Cons.IH valid_match_def match_points_def dest: py_index_Inl)
qed

lemma zip_fst_snd_map: "zip (map (fst \<circ> f) xs) (map (snd \<circ> f) xs) = map f xs"
  by (induction xs) simp_all

lemma measure_displacement_eq:
  "measure_displacement k1 k2 ms =
     (if list_all (valid_match k1 k2) ms
      then Inr (if ms = [] then 0
                else fl (float_sum (map (pair_distance \<circ> match_points k1 k2) ms)
                         / real (length ms)))
      else Inl IndexError)"
  by (simp add: measure_displacement_def find_matching_coordinates_def matching_loop_char
      calculate_mean_distance_eq zip_fst_snd_map)

lemma pow2_neg: "2 powr real_of_int (- int n) = 1 / 2 ^ n"
  by (simp add: powr_minus_divide powr_realpow)

lemma pow2_pos: "2 powr real_of_int (int n) = 2 ^ n"
  by (simp add: powr_realpow)

lemma fl_dyadic:
  assumes "\<bar>m\<bar> \<le> 2 ^ 53"
  shows "fl (real_of_int m / 2 ^ n) = real_of_int m / 2 ^ n"
proof -
  have "real_of_int m / 2 ^ n = real_of_int m * 2 powr real_of_int (- int n)"
    by (simp only: pow2_neg) simp
  from fl_exact [OF this assms] show ?thesis .
qed

lemma fl_2048: "fl 2048 = 2048"
  using fl_of_int [of 2048] by simp

lemma fl_tiny: "fl (1 / 2 ^ 42) = 1 / 2 ^ 42"
  using fl_dyadic [of 1 42] by simp

lemma fl_tiny_twice: "fl (1 / 2 ^ 42 + 1 / 2 ^ 42) = 1 / 2 ^ 41"
  using fl_dyadic [of 1 41] by simp

lemma fl_big_tiny: "fl (1 / 2 ^ 41 + 2048) = 2048 + 1 / 2 ^ 41"
  using fl_dyadic [of "2 ^ 52 + 1" 41] by simp

lemma fl_big_tiny_again: "fl (2048 + 1 / 2 ^ 41) = 2048 + 1 / 2 ^ 41"
  using fl_dyadic [of "2 ^ 52 + 1" 41] by simp

lemma fl_quarter: "fl ((2048 + 1 / 2 ^ 41) / 4) = 512 + 1 / 2 ^ 43"
  using fl_dyadic [of "2 ^ 52 + 1" 43] by simp

lemma fl_512: "fl (2048 / 4) = 512"
  using fl_of_int [of 512] by simp

lemma fl_tie: "fl (2048 + 1 / 2 ^ 42) = 2048"
proof -
  have "fl (2048 + 1 / 2 ^ 42) =
        of_int (round_half_even ((2048 + 1 / 2 ^ 42) / 2 powr real_of_int (11 - 52)))
          * 2 powr real_of_int (11 - 52)"
    by (rule fl_eval) (simp_all add: powr_realpow [symmetric])
  also have "2 powr real_of_int (11 - 52) = 1 / 2 ^ 41"
    using pow2_neg [of 41] by simp
  also have "round_half_even ((2048 + 1 / 2 ^ 42) / (1 / 2 ^ 41)) = 2 ^ 52"
    by (simp add: round_half_even_def)
  finally show ?thesis
    by simp
qed

lemma fl_numeral: "numeral w \<le> (2 ^ 53 :: int) \<Longrightarrow> fl (numeral w) = numeral w"
  using fl_of_int [of "numeral w"] by simp

lemma fl_neg_numeral: "numeral w \<le> (2 ^ 53 :: int) \<Longrightarrow> fl (- numeral w) = - numeral w"
  using fl_of_int [of "- numeral w"] by simp

lemma fl_one: "fl 1 = 1"
  using fl_of_int [of 1] by simp

lemma ranked_sel: "queryIdx (ranked i d) = i" "trainIdx (ranked i d) = i" "distance (ranked i d) = d"
  by (simp_all add: ranked_def)

lemma tiny_facts:
  "0 \<le> tiny"
  "fl tiny = tiny"
  "fl (2048 + tiny) = 2048"
  "fl (tiny + tiny) = 2 * tiny"
  "fl (2 * tiny + 2048) = 2048 + 2 * tiny"
  "fl (2048 + 2 * tiny) = 2048 + 2 * tiny"
  "fl ((2048 + 2 * tiny) / 4) = 512 + tiny / 2"
  using fl_tiny fl_tie fl_tiny_twice fl_big_tiny fl_big_tiny_again fl_quarter
  by (simp_all add: tiny_def)

lemma row_distances:
  "pair_distance ((2048, 0), (0, 0)) = 2048"
  "pair_distance ((tiny, 0), (0, 0)) = tiny"
  "pair_distance ((0, 0), (0, 0)) = 0"
  using fl_2048 tiny_facts(1,2) by (simp_all add: pair_distance_row fl_zero)

lemma float_sum_4: "float_sum [a, b, c, d] = fl (fl (fl (fl a + b) + c) + d)"
  by (simp add: float_sum_def)

text \<open>
  Claim C8 as stated fails on the code. The same four correspondences are ranked in two
  ways by their descriptor distances. The pixel distances are 2048, \<open>tiny\<close>, \<open>tiny\<close> and 0
  with \<open>tiny = 1 / 2 ^ 42\<close>, half the spacing of the doubles at 2048. Added in the order
  2048, \<open>tiny\<close>, \<open>tiny\<close>, 0 each \<open>tiny\<close> is rounded away and the mean is 512; added in the
  order \<open>tiny\<close>, \<open>tiny\<close>, 2048, 0 the sum is exact and the mean is \<open>512 + 1 / 2 ^ 43\<close>.
\<close>

theorem ranking_changes_the_displacement:
  "measure_displacement [(2048, 0), (tiny, 0), (tiny, 0), (0, 0)]
      [(0, 0), (0, 0), (0, 0), (0, 0)]
      (sort_key distance [ranked 0 1, ranked 1 2, ranked 2 3, ranked 3 4]) = Inr 512
   \<and> measure_displacement [(2048, 0), (tiny, 0), (tiny, 0), (0, 0)]
      [(0, 0), (0, 0), (0, 0), (0, 0)]
      (sort_key distance [ranked 0 3, ranked 1 1, ranked 2 2, ranked 3 4]) = Inr (512 + tiny / 2)
   \<and> tiny = 1 / 2 ^ 42"
proof -
  have a: "sort_key distance [ranked 0 1, ranked 1 2, ranked 2 3, ranked 3 4]
          = [ranked 0 1, ranked 1 2, ranked 2 3, ranked 3 4]"
    by (simp add: ranked_sel)
  have b: "sort_key distance [ranked 0 3, ranked 1 1, ranked 2 2, ranked 3 4]
          = [ranked 1 1, ranked 2 2, ranked 0 3, ranked 3 4]"
    by (simp add: ranked_sel)
  have sa: "float_sum [2048, tiny, tiny, 0] = 2048"
    by (simp only: float_sum_4 add_0_right fl_2048 tiny_facts)
  have sb: "float_sum [tiny, tiny, 2048, 0] = 2048 + 2 * tiny"
    by (simp only: float_sum_4 add_0_right tiny_facts)
  have ma: "measure_displacement [(2048, 0), (tiny, 0), (tiny, 0), (0, 0)]
      [(0, 0), (0, 0), (0, 0), (0, 0)]
      [ranked 0 1, ranked 1 2, ranked 2 3, ranked 3 4]
      = Inr (fl (float_sum [2048, tiny, tiny, 0] / 4))"
    by (simp add: measure_displacement_eq match_points_def valid_match_def ranked_sel
        py_index_def row_distances)
  have mb: "measure_displacement [(2048, 0), (tiny, 0), (tiny, 0), (0, 0)]
      [(0, 0), (0, 0), (0, 0), (0, 0)]
      [ranked 1 1, ranked 2 2, ranked 0 3, ranked 3 4]
      = Inr (fl (float_sum [tiny, tiny, 2048, 0] / 4))"
    by (simp add: measure_displacement_eq match_points_def valid_match_def ranked_sel
        py_index_def row_distances)
  have f: "fl (2048 / 4) = 512"
    by (rule fl_512)
  have t: "tiny = 1 / 2 ^ 42"
    by (simp add: tiny_def)
  show ?thesis
    unfolding a b ma mb sa sb using t by (simp only: f tiny_facts simp_thms)
qed

lemma measure_displacement_bounds:
  assumes v: "list_all (valid_match k1 k2) ms" and ne: "ms \<noteq> []"
  shows "\<exists>d. measure_displacement k1 k2 ms = Inr d
      \<and> (1 - float_eps) ^ (length ms + 1)
          * (sum_list (map (pair_distance \<circ> match_points k1 k2) ms) / real (length ms)) \<le> d
      \<and> d \<le> (1 + float_eps) ^ (length ms + 1)
          * (sum_list (map (pair_distance \<circ> match_points k1 k2) ms) / real (length ms))"
proof -
  let ?ds = "map (pair_distance \<circ> match_points k1 k2) ms"
  have "?ds \<noteq> []" using ne by simp
  moreover have "\<forall>x\<in>set ?ds. 0 \<le> x"
    by (auto simp: pair_distance_nonneg)
  ultimately show ?thesis
    using float_mean_bounds [of ?ds] v ne by (simp add: measure_displacement_eq)
qed

lemma permuted_matches:
  fixes f :: "dmatch \<Rightarrow> real"
  assumes "mset ms' = mset ms"
  shows "length ms' = length ms" "(ms' = []) = (ms = [])"
    "list_all P ms' = list_all P ms"
    "sum_list (map f ms') = sum_list (map f ms)"
proof -
  show l: "length ms' = length ms"
    using assms by (metis size_mset)
  show "(ms' = []) = (ms = [])"
    using l by auto
  have "set ms' = set ms"
    using assms by (metis set_mset_mset)
  then show "list_all P ms' = list_all P ms"
    by (simp add: list_all_iff)
  have "mset (map f ms') = mset (map f ms)"
    using assms by simp
  then show "sum_list (map f ms') = sum_list (map f ms)"
    by (metis sum_mset_sum_list)
qed

text \<open>
  Claim C8, amended. For any two coordinate lists \<open>calculate_mean_distance\<close> never raises.
  It returns the sum of the distances of the zipped pairs, every pair with weight one, added
  from the left in double arithmetic, divided by their number; the distance of a pair is
  \<^verbatim>\<open>math.hypot\<close> of the two coordinate differences; with no pair at all the result is
  exactly 0, through the guard and not through a division fault. The displacement measured
  on a list of matches is this value for the points of all the matches, in the order of the
  list. It is the arithmetic mean of the distances up to rounding: for \<open>n\<close> matches it
  lies between \<open>(1 - 2^-53) ^ (n + 1)\<close> and \<open>(1 + 2^-53) ^ (n + 1)\<close> times the exact mean,
  and so does the value for any other ranking of the same matches; two rankings can differ
  by rounding errors, and by no more.
\<close>

theorem mean_distance_is_rounded_mean:
  "calculate_mean_distance c1 c2 =
     Inr (if zip c1 c2 = [] then 0
          else fl (float_sum (map pair_distance (zip c1 c2)) / real (length (zip c1 c2))))
   \<and> pair_distance ((x1, y1), (x2, y2)) = fl (sqrt ((fl (x1 - x2))\<^sup>2 + (fl (y1 - y2))\<^sup>2))
   \<and> calculate_mean_distance [] [] = Inr 0
   \<and> measure_displacement k1 k2 ms =
       (if list_all (valid_match k1 k2) ms
        then Inr (if ms = [] then 0
                  else fl (float_sum (map (pair_distance \<circ> match_points k1 k2) ms)
                           / real (length ms)))
        else Inl IndexError)
   \<and> (list_all (valid_match k1 k2) ms \<and> ms \<noteq> [] \<and> mset ms' = mset ms \<longrightarrow>
        (\<exists>d d'. measure_displacement k1 k2 ms = Inr d \<and> measure_displacement k1 k2 ms' = Inr d'
           \<and> (1 - float_eps) ^ (length ms + 1)
               * (sum_list (map (pair_distance \<circ> match_points k1 k2) ms) / real (length ms)) \<le> d
           \<and> d \<le> (1 + float_eps) ^ (length ms + 1)
               * (sum_list (map (pair_distance \<circ> match_points k1 k2) ms) / real (length ms))
           \<and> (1 - float_eps) ^ (length ms + 1)
               * (sum_list (map (pair_distance \<circ> match_points k1 k2) ms) / real (length ms)) \<le> d'
           \<and> d' \<le> (1 + float_eps) ^ (length ms + 1)
               * (sum_list (map (pair_distance \<circ> match_points k1 k2) ms) / real (length ms))))
   \<and> float_eps = 1 / 2 ^ 53"
proof -
  have perm: "\<exists>d d'. measure_displacement k1 k2 ms = Inr d \<and> measure_displacement k1 k2 ms' = Inr d'
           \<and> (1 - float_eps) ^ (length ms + 1)
               * (sum_list (map (pair_distance \<circ> match_points k1 k2) ms) / real (length ms)) \<le> d
           \<and> d \<le> (1 + float_eps) ^ (length ms + 1)
               * (sum_list (map (pair_distance \<circ> match_points k1 k2) ms) / real (length ms))
           \<and> (1 - float_eps) ^ (length ms + 1)
               * (sum_list (map (pair_distance \<circ> match_points k1 k2) ms) / real (length ms)) \<le> d'
           \<and> d' \<le> (1 + float_eps) ^ (length ms + 1)
               * (sum_list (map (pair_distance \<circ> match_points k1 k2) ms) / real (length ms))"
    if v: "list_all (valid_match k1 k2) ms" and ne: "ms \<noteq> []" and p: "mset ms' = mset ms"
  proof -
    have v': "list_all (valid_match k1 k2) ms'" and ne': "ms' \<noteq> []"
      using permuted_matches(2,3) [OF p] v ne by simp_all
    from measure_displacement_bounds [OF v ne] measure_displacement_bounds [OF v' ne']
    show ?thesis
      by (simp only: permuted_matches(1,4) [OF p]) blast
  qed
  show ?thesis
    using calculate_mean_distance_eq [of c1 c2] calculate_mean_distance_eq [of "[]" "[]"]
      pair_distance_euclid [of x1 y1 x2 y2] measure_displacement_eq [of k1 k2 ms] perm
    by (simp add: float_eps_def)
qed

lemma sqrt_25: "sqrt 25 = 5"
  using real_sqrt_abs [of 5] by simp

lemma distance_3_4: "pair_distance ((0, 0), (3, 4)) = 5"
  by (simp add: pair_distance_euclid fl_neg_numeral fl_numeral sqrt_25)

lemma distance_0_1: "pair_distance ((0, 0), (0, 1)) = 1"
  using fl_of_int [of "- 1"] by (simp add: pair_distance_euclid fl_zero fl_one)

theorem mean_distance_is_rounded_mean_witness:
  "measure_displacement [(0, 0), (0, 0)] [(3, 4), (0, 1)] [ranked 0 7, ranked 1 2] = Inr 3
   \<and> measure_displacement [(0, 0), (0, 0)] [(3, 4), (0, 1)] [ranked 1 2, ranked 0 7] = Inr 3
   \<and> (1 - float_eps) ^ 3 * 3 \<le> 3 \<and> 3 \<le> (1 + float_eps) ^ 3 * 3"
proof -
  let ?k1 = "[(0, 0), (0, 0)] :: point list" and ?k2 = "[(3, 4), (0, 1)] :: point list"
  let ?ms = "[ranked 0 7, ranked 1 2]" and ?ms' = "[ranked 1 2, ranked 0 7]"
  have v: "list_all (valid_match ?k1 ?k2) ?ms" "list_all (valid_match ?k1 ?k2) ?ms'"
    by (simp_all add: valid_match_def ranked_sel py_index_def)
  have p: "mset ?ms' = mset ?ms"
    by simp
  have e: "pair_distance (match_points ?k1 ?k2 (ranked 0 7)) = 5"
    "pair_distance (match_points ?k1 ?k2 (ranked 1 2)) = 1"
    by (simp_all add: match_points_def ranked_sel py_index_def distance_3_4 distance_0_1)
  have s: "float_sum [5, 1] = 6" "float_sum [1, 5] = 6"
    by (simp_all add: float_sum_def fl_numeral fl_one)
  have q: "fl (6 / 2) = 3"
    by (simp add: fl_numeral)
  note t = mean_distance_is_rounded_mean [of "[]" "[]" 0 0 0 0 ?k1 ?k2 ?ms ?ms']
  note t' = mean_distance_is_rounded_mean [of "[]" "[]" 0 0 0 0 ?k1 ?k2 ?ms' ?ms']
  have m: "measure_displacement ?k1 ?k2 ?ms = Inr 3"
    using t [THEN conjunct2, THEN conjunct2, THEN conjunct2, THEN conjunct1] v
    by (simp add: e s q fl_numeral)
  have m': "measure_displacement ?k1 ?k2 ?ms' = Inr 3"
    using t' [THEN conjunct2, THEN conjunct2, THEN conjunct2, THEN conjunct1] v
    by (simp add: e s q fl_numeral)
  have "\<exists>d d'. measure_displacement ?k1 ?k2 ?ms = Inr d \<and> measure_displacement ?k1 ?k2 ?ms' = Inr d'
           \<and> (1 - float_eps) ^ (length ?ms + 1)
               * (sum_list (map (pair_distance \<circ> match_points ?k1 ?k2) ?ms) / real (length ?ms)) \<le> d
           \<and> d \<le> (1 + float_eps) ^ (length ?ms + 1)
               * (sum_list (map (pair_distance \<circ> match_points ?k1 ?k2) ?ms) / real (length ?ms))
           \<and> (1 - float_eps) ^ (length ?ms + 1)
               * (sum_list (map (pair_distance \<circ> match_points ?k1 ?k2) ?ms) / real (length ?ms)) \<le> d'
           \<and> d' \<le> (1 + float_eps) ^ (length ?ms + 1)
               * (sum_list (map (pair_distance \<circ> match_points ?k1 ?k2) ?ms) / real (length ?ms))"
    using t [THEN conjunct2, THEN conjunct2, THEN conjunct2, THEN conjunct2, THEN conjunct1]
      v(1) p
    by blast
  then have "(1 - float_eps) ^ (length ?ms + 1)
               * (sum_list (map (pair_distance \<circ> match_points ?k1 ?k2) ?ms) / real (length ?ms)) \<le> 3
           \<and> 3 \<le> (1 + float_eps) ^ (length ?ms + 1)
               * (sum_list (map (pair_distance \<circ> match_points ?k1 ?k2) ?ms) / real (length ?ms))"
    using m by auto
  moreover have "sum_list (map (pair_distance \<circ> match_points ?k1 ?k2) ?ms) / real (length ?ms) = 3"
    by (simp add: e)
  moreover have "length ?ms + 1 = 3"
    by simp
  ultimately have "(1 - float_eps) ^ 3 * 3 \<le> 3 \<and> 3 \<le> (1 + float_eps) ^ 3 * 3"
    by (simp only:)
  then show ?thesis
    using m m' by simp
qed

section \<open>The solver\<close>

lemma constants_pos:
  "0 < G_default * M_default" "0 < R_default" "0 < d_focale" "0 < n_pixel_x" "0 < dim_sensore_x"
  by (simp_all add: G_default_def M_default_def R_default_def d_focale_def n_pixel_x_def
      dim_sensore_x_def)

lemma calculate_v_from_h_pos:
  assumes "0 \<le> h"
  shows "calculate_v_from_h h G_default R_default M_default
      = Inr (sqrt (G_default * M_default / (R_default + h)))"
proof -
  have "0 < R_default + h"
    using assms constants_pos(2) by linarith
  moreover from this have "0 \<le> G_default * M_default / (R_default + h)"
    using constants_pos(1) by simp
  ultimately show ?thesis
    by (simp add: calculate_v_from_h_def py_truediv_def math_sqrt_def)
qed

lemma spec_altitude_Suc: "spec_altitude d dt h0 (Suc i) = next_altitude d dt (spec_altitude d dt h0 i)"
  by (simp add: next_altitude_def Let_def)

lemma spec_altitude_shift:
  "spec_altitude d dt h0 (Suc i) = spec_altitude d dt (next_altitude d dt h0) i"
  by (induction i) (simp_all only: spec_altitude_Suc spec_altitude.simps(1))

lemma next_altitude_nonneg:
  assumes "0 \<le> h" "0 \<le> d" "0 \<le> dt"
  shows "0 \<le> next_altitude d dt h"
proof (cases "d = 0")
  case True
  then show ?thesis using assms by (simp add: next_altitude_def)
next
  case False
  have "0 \<le> sqrt (G_default * M_default / (R_default + h)) * d_focale * n_pixel_x * dt"
    using constants_pos assms by (intro mult_nonneg_nonneg) simp_all
  moreover have "0 < dim_sensore_x * d"
    using constants_pos(5) assms False by simp
  ultimately have "0 \<le> sqrt (G_default * M_default / (R_default + h)) * d_focale * n_pixel_x * dt / (dim_sensore_x * d)"
    by (intro divide_nonneg_pos)
  then show ?thesis using False by (simp only: next_altitude_def if_True not_False_eq_True)
qed

lemma solver_rounds_step:
  assumes "0 \<le> h"
  shows "solver_rounds (Suc n) d dt v h =
         solver_rounds n d dt (Some (sqrt (G_default * M_default / (R_default + h))))
           (next_altitude d dt h)"
proof -
  have "dim_sensore_x \<noteq> 0"
    using constants_pos(5) by simp
  then show ?thesis
    by (simp add: calculate_v_from_h_pos [OF assms] py_truediv_def next_altitude_def)
qed

lemma solver_rounds_ok:
  assumes "0 \<le> d" "0 \<le> dt"
  shows "0 \<le> h \<Longrightarrow> solver_rounds (Suc n) d dt v h =
     Inr (Some (sqrt (G_default * M_default / (R_default + spec_altitude d dt h n))),
          spec_altitude d dt h (Suc n))"
proof (induction n arbitrary: v h)
  case 0
  then show ?case
    by (simp only: solver_rounds_step solver_rounds.simps(1) spec_altitude_Suc spec_altitude.simps(1))
next
  case (Suc n)
  have nn: "0 \<le> next_altitude d dt h"
    using next_altitude_nonneg [OF Suc.prems assms] .
  show ?case
    by (simp only: solver_rounds_step [OF Suc.prems, of "Suc n"] Suc.IH [OF nn]
        spec_altitude_shift [symmetric])
qed

lemma solver_ok:
  assumes "0 \<le> d" "0 \<le> dt"
  shows "solver d dt = Inr (spec_velocity d dt 400000 8, spec_altitude d dt 400000 8)"
proof -
  have "solver_rounds (Suc 7) d dt None 400000 =
     Inr (Some (sqrt (G_default * M_default / (R_default + spec_altitude d dt 400000 7))),
          spec_altitude d dt 400000 (Suc 7))"
    using assms by (intro solver_rounds_ok) simp_all
  then show ?thesis
    by (simp add: solver_def n_iteration_def spec_velocity_def del: solver_rounds.simps spec_altitude.simps)
qed

lemma spec_altitude_zero: "spec_altitude 0 dt h0 i = h0"
  by (induction i) simp_all

lemma solver_zero: "solver 0 dt = Inr (sqrt (G_default * M_default / (R_default + 400000)), 400000)"
proof -
  have a: "solver_rounds (Suc n) 0 dt v 400000 = Inr (Some (sqrt (G_default * M_default / (R_default + 400000))), 400000)" for n v
    by (induction n arbitrary: v) (simp_all add: calculate_v_from_h_pos)
  have "solver_rounds (Suc 7) 0 dt None 400000 = Inr (Some (sqrt (G_default * M_default / (R_default + 400000))), 400000)"
    by (rule a)
  then show ?thesis
    by (simp add: solver_def n_iteration_def del: solver_rounds.simps)
qed

text \<open>
  Claim C3. For every displacement \<open>d\<close> that \<open>calculate_mean_distance\<close> can return and
  every elapsed time \<open>dt > 0\<close>, the solver raises nothing and runs its
  \<open>n_iteration = 8\<close> rounds to the end, with no early exit: from the seed altitude
  400000 each round computes \<open>v = sqrt (G M / (R + h))\<close> and, when \<open>d \<noteq> 0\<close>, sets
  \<open>h = v d_focale n_pixel_x dt / (dim_sensore_x d)\<close>; it returns the velocity computed in
  the 8th round and the altitude after 8 rounds.
\<close>

theorem solver_runs_eight_rounds:
  assumes "calculate_mean_distance c1 c2 = Inr d" and "0 < dt"
  shows "n_iteration = 8
    \<and> solver_rounds n_iteration d dt None 400000 =
        Inr (Some (spec_velocity d dt 400000 8), spec_altitude d dt 400000 8)
    \<and> solver d dt = Inr (spec_velocity d dt 400000 8, spec_altitude d dt 400000 8)"
proof -
  have "0 \<le> float_sum (map pair_distance (zip c1 c2))"
    by (rule float_sum_nonneg) (auto simp: pair_distance_nonneg)
  then have "0 \<le> fl (float_sum (map pair_distance (zip c1 c2)) / real (length (zip c1 c2)))"
    by (intro fl_nonneg divide_nonneg_nonneg) simp_all
  then have d: "0 \<le> d"
    using assms(1) by (auto simp: calculate_mean_distance_eq split: if_splits)
  have dt: "0 \<le> dt"
    using assms(2) by simp
  have "solver_rounds (Suc 7) d dt None 400000 =
     Inr (Some (sqrt (G_default * M_default / (R_default + spec_altitude d dt 400000 7))),
          spec_altitude d dt 400000 (Suc 7))"
    using d dt by (intro solver_rounds_ok) simp_all
  then have "solver_rounds n_iteration d dt None 400000 =
        Inr (Some (spec_velocity d dt 400000 8), spec_altitude d dt 400000 8)"
    by (simp add: n_iteration_def spec_velocity_def del: solver_rounds.simps spec_altitude.simps)
  then show ?thesis
    using solver_ok [OF d dt] by (simp add: n_iteration_def)
qed

theorem solver_runs_eight_rounds_witness:
  "calculate_mean_distance [(0, 0)] [(3, 4)] = Inr 5 \<and> (0::real) < 1
   \<and> solver 5 1 = Inr (spec_velocity 5 1 400000 8, spec_altitude 5 1 400000 8)"
proof -
  have m: "calculate_mean_distance [(0, 0)] [(3, 4)] = Inr 5"
    by (simp add: calculate_mean_distance_eq distance_3_4 float_sum_def fl_numeral)
  show ?thesis
    using solver_runs_eight_rounds [OF m, of 1] m by simp
qed

section \<open>One iteration\<close>

lemma compare_frames_measured:
  assumes "detected e = Inr (kp1, kp2)" and "bf_match e = Inr raw"
    and "measure_displacement kp1 kp2 (sort_key distance raw) = Inr d"
  shows "compare_frames st prev e =
     (case solver d (real_of_int (now_time st - prev) / 1000000) of
        Inr (v, h) \<Rightarrow> Inr (st\<lparr>h_list := h_list st @ [h], v_list := v_list st @ [v]\<rparr>)
      | Inl x \<Rightarrow> if x = Cv2Error \<or> x = ZeroDivisionError then Inr st else Inl x)"
  using assms by (simp add: compare_frames_def try_body_def calculate_matches_def)

lemma orbital_speed_seed: "2000 < sqrt (G_default * M_default / (R_default + 400000))"
proof -
  have "(2000::real)\<^sup>2 < G_default * M_default / (R_default + 400000)"
    by (simp add: G_default_def M_default_def R_default_def)
  then show ?thesis
    by (rule real_less_rsqrt)
qed

lemma next_altitude_backwards: "R_default + next_altitude 1 (- 1) 400000 < 0"
proof -
  have "next_altitude 1 (- 1) 400000 =
        - (sqrt (G_default * M_default / (R_default + 400000)) * (20280000 / 6287))"
    by (simp add: next_altitude_def d_focale_def n_pixel_x_def dim_sensore_x_def)
  then show ?thesis
    using orbital_speed_seed by (simp add: R_default_def)
qed

lemma calculate_v_from_h_below:
  assumes "R_default + h < 0"
  shows "calculate_v_from_h h G_default R_default M_default = Inl ValueError"
proof -
  have "G_default * M_default / (R_default + h) < 0"
    using assms constants_pos(1) by (simp add: divide_pos_neg)
  then show ?thesis
    using assms by (simp add: calculate_v_from_h_def py_truediv_def math_sqrt_def)
qed

lemma solver_rounds_below:
  assumes "R_default + h < 0"
  shows "solver_rounds (Suc n) d dt v h = Inl ValueError"
  by (simp add: calculate_v_from_h_below [OF assms])

lemma solver_backwards: "solver 1 (- 1) = Inl ValueError"
proof -
  have "solver_rounds (Suc (Suc 6)) 1 (- 1) None 400000 =
        solver_rounds (Suc 6) 1 (- 1) (Some (sqrt (G_default * M_default / (R_default + 400000))))
          (next_altitude 1 (- 1) 400000)"
    by (rule solver_rounds_step) simp
  also have "\<dots> = Inl ValueError"
    by (rule solver_rounds_below [OF next_altitude_backwards])
  finally show ?thesis
    by (simp add: solver_def n_iteration_def del: solver_rounds.simps)
qed

lemma measure_one_match:
  "measure_displacement [p] [q] (sort_key distance one_match) = Inr (pair_distance (p, q))"
  by (simp add: one_match_def measure_displacement_def find_matching_coordinates_def py_index_def
      calculate_mean_distance_eq float_sum_def pair_distance_fl)

lemma distance_same: "pair_distance (p, p) = 0"
  by (cases p) (simp add: pair_distance_euclid fl_zero)

lemma distance_0_10: "pair_distance ((0, 0), (1, 0)) = 1"
  using fl_of_int [of "- 1"] by (simp add: pair_distance_row fl_one)

lemma first_iteration:
  "iteration (initial_state s now0) (world_answers t det bf) =
     Inr \<lparr>k_counter = 0, now_time = t, images_deque = [Photo 0], unlinked = [],
          h_list = [s], v_list = []\<rparr>"
  by (simp add: iteration_def initial_state_def world_answers_def evict_oldest_def)


lemma world_answers_sel:
  "clock (world_answers t det bf) = t"
  "unlink_raises (world_answers t det bf) = None"
  "capture_raises (world_answers t det bf) = None"
  "detected (world_answers t det bf) = det"
  "bf_match (world_answers t det bf) = bf"
  by (simp_all add: world_answers_def)

lemma initial_state_sel:
  "k_counter (initial_state s t) = - 1"
  "now_time (initial_state s t) = t"
  "images_deque (initial_state s t) = []"
  "unlinked (initial_state s t) = []"
  "h_list (initial_state s t) = [s]"
  "v_list (initial_state s t) = []"
  by (simp_all add: initial_state_def)

lemma iteration_calm:
  assumes "length (images_deque st) < 42"
  shows "iteration st (world_answers t det bf) =
     (if k_counter st + 1 \<noteq> 0
      then compare_frames
             (st\<lparr>k_counter := k_counter st + 1, now_time := t,
                 images_deque := images_deque st @ [Photo (k_counter st + 1)]\<rparr>)
             (now_time st) (world_answers t det bf)
      else Inr (st\<lparr>k_counter := k_counter st + 1, now_time := t,
                 images_deque := images_deque st @ [Photo (k_counter st + 1)]\<rparr>))"
  using assms by (simp add: iteration_def evict_oldest_def world_answers_sel Let_def)

section \<open>The final estimate: formatting and writing\<close>

lemma digit_char_digit: "digit_char d \<in> set ''0123456789''"
proof -
  have "d mod 10 < length ''0123456789''" by simp
  then show ?thesis
    unfolding digit_char_def by (rule nth_mem)
qed

lemma decimal_digits: "set (decimal n) \<subseteq> set ''0123456789''"
proof (induction n rule: decimal.induct)
  case (1 n)
  show ?case
  proof (cases "n < 10")
    case True
    then show ?thesis
      using digit_char_digit [of n] by (subst decimal.simps) simp
  next
    case False
    then show ?thesis
      using 1 digit_char_digit [of "n mod 10"] by (subst decimal.simps) simp
  qed
qed

lemma decimal_nonempty: "decimal n \<noteq> []"
  by (subst decimal.simps) simp


lemma format_4f_shape:
  "\<exists>ip fp. format_4f x = (if x < 0 then ''-'' else '''') @ ip @ ''.'' @ fp
      \<and> ip \<noteq> [] \<and> set ip \<subseteq> set ''0123456789''
      \<and> length fp = 4 \<and> set fp \<subseteq> set ''0123456789''"
proof -
  define q where "q = nat (round_half_even (\<bar>x\<bar> * 10000))"
  let ?fp = "[digit_char (q div 1000), digit_char (q div 100), digit_char (q div 10), digit_char q]"
  have "format_4f x = (if x < 0 then ''-'' else '''') @ decimal (q div 10000) @ ''.'' @ ?fp"
    by (simp add: format_4f_def q_def Let_def)
  moreover have "set ?fp \<subseteq> set ''0123456789''"
    using digit_char_digit [of "q div 1000"] digit_char_digit [of "q div 100"]
      digit_char_digit [of "q div 10"] digit_char_digit [of q]
    by simp
  moreover have "length ?fp = 4" by simp
  ultimately show ?thesis
    using decimal_nonempty [of "q div 10000"] decimal_digits [of "q div 10000"]
    by blast
qed

lemma digit_value_digit_char: "digit_value (digit_char d) = d mod 10"
proof -
  have "\<forall>k<10. digit_value (''0123456789'' ! k) = k"
    by (simp add: All_less_Suc numeral_eq_Suc digit_value_def)
  moreover have "d mod 10 < 10" by simp
  ultimately show ?thesis
    unfolding digit_char_def by blast
qed

lemma decimal_value_snoc: "decimal_value (s @ [c]) = 10 * decimal_value s + digit_value c"
  by (simp add: decimal_value_def)

lemma decimal_value_decimal: "decimal_value (decimal n) = n"
proof (induction n rule: decimal.induct)
  case (1 n)
  show ?case
  proof (cases "n < 10")
    case True
    then show ?thesis
      by (subst decimal.simps) (simp add: decimal_value_def digit_value_digit_char)
  next
    case False
    then show ?thesis
      using 1 by (subst decimal.simps) (simp add: decimal_value_snoc digit_value_digit_char)
  qed
qed

lemma four_digits_value:
  "decimal_value [digit_char (q div 1000), digit_char (q div 100), digit_char (q div 10), digit_char q]
     = q mod 10000"
proof -
  have "decimal_value [digit_char (q div 1000), digit_char (q div 100), digit_char (q div 10), digit_char q]
     = 1000 * (q div 1000 mod 10) + 100 * (q div 100 mod 10) + 10 * (q div 10 mod 10) + q mod 10"
    by (simp add: decimal_value_def digit_value_digit_char)
  also have "\<dots> = q mod 10000"
  proof -
    have a: "q mod 10000 = 10 * (q div 10 mod 1000) + q mod 10"
      using mod_mult2_eq [of q 10 1000] by simp
    have d1: "q div 10 div 10 = q div 100"
      using div_mult2_eq [of q 10 10] by simp
    have d2: "q div 100 div 10 = q div 1000"
      using div_mult2_eq [of q 100 10] by simp
    have b: "q div 10 mod 1000 = 10 * (q div 100 mod 100) + q div 10 mod 10"
      using mod_mult2_eq [of "q div 10" 10 100] by (simp add: d1)
    have c: "q div 100 mod 100 = 10 * (q div 1000 mod 10) + q div 100 mod 10"
      using mod_mult2_eq [of "q div 100" 10 10] by (simp add: d2)
    show ?thesis
      by (simp only: a b c) simp
  qed
  finally show ?thesis .
qed



lemma format_4f_reads_back:
  assumes "0 \<le> x"
  shows "\<exists>ip fp. format_4f x = ip @ ''.'' @ fp \<and> length fp = 4
           \<and> \<bar>real (decimal_value ip) + real (decimal_value fp) / 10000 - x\<bar> \<le> 1 / 20000"
proof -
  define q where "q = nat (round_half_even (\<bar>x\<bar> * 10000))"
  let ?fp = "[digit_char (q div 1000), digit_char (q div 100), digit_char (q div 10), digit_char q]"
  have f: "format_4f x = decimal (q div 10000) @ ''.'' @ ?fp"
    using assms by (simp add: format_4f_def q_def Let_def)
  have "0 \<le> round_half_even (x * 10000)"
    using assms by (intro round_half_even_nonneg) simp
  then have "real q = real_of_int (round_half_even (x * 10000))"
    using assms by (simp add: q_def)
  then have c: "\<bar>real q - x * 10000\<bar> \<le> 1 / 2"
    using round_half_even_close [of "x * 10000"] by simp
  have "real (q div 10000) * 10000 + real (q mod 10000) = real q"
    by (metis div_mult_mod_eq of_nat_add of_nat_mult of_nat_numeral)
  then have "real (q div 10000) + real (q mod 10000) / 10000 = real q / 10000"
    by (simp add: field_simps)
  then have "\<bar>real (decimal_value (decimal (q div 10000))) + real (decimal_value ?fp) / 10000 - x\<bar>
      = \<bar>real q / 10000 - x\<bar>"
    by (simp only: decimal_value_decimal four_digits_value)
  also have "\<dots> = \<bar>real q - x * 10000\<bar> / 10000"
    by (simp add: field_simps)
  also have "\<dots> \<le> 1 / 20000"
    using c by simp
  finally show ?thesis
    using f by (intro exI [of _ "decimal (q div 10000)"] exI [of _ ?fp]) simp
qed

lemma finalize_eq:
  "finalize vs =
     Inr (format_4f (fl ((if vs = [] then fl (76677 / 10)
                          else fl (float_sum vs / real (length vs))) / 1000)))"
  by (simp add: finalize_def float_truediv_def)

lemma finalize_nonempty:
  "vs \<noteq> [] \<Longrightarrow> finalize vs = Inr (format_4f (fl (fl (float_sum vs / real (length vs)) / 1000)))"
  by (simp add: finalize_eq)

lemma format_4f_near:
  fixes n :: nat
  assumes "0 \<le> x" and "\<bar>x * 10000 - real n\<bar> < 1 / 2"
  shows "format_4f x = decimal (n div 10000) @ ''.'' @
           [digit_char (n div 1000), digit_char (n div 100), digit_char (n div 10), digit_char n]"
proof -
  have "round_half_even (x * 10000) = int n"
    using assms(2) by (intro round_half_even_near) simp
  then show ?thesis
    using assms(1) by (simp add: format_4f_def)
qed

lemma two_roundings:
  assumes "0 \<le> y"
  shows "\<bar>fl (fl y / 1000) * 10000 - y * 10\<bar> \<le> y * 30 * float_eps"
proof -
  have e: "0 < float_eps" "float_eps < 1"
    by (rule float_eps_bounds)+
  have a: "y * (1 - float_eps) \<le> fl y" "fl y \<le> y * (1 + float_eps)"
    using fl_lower [OF assms] fl_upper [OF assms] by simp_all
  have f: "0 \<le> fl y / 1000"
    using fl_nonneg [OF assms] by simp
  have b: "fl y / 1000 * (1 - float_eps) \<le> fl (fl y / 1000)"
    "fl (fl y / 1000) \<le> fl y / 1000 * (1 + float_eps)"
    using fl_lower [OF f] fl_upper [OF f] by simp_all
  have "y * (1 - float_eps) * (1 - float_eps) \<le> fl y * (1 - float_eps)"
    using a(1) e by (intro mult_right_mono) simp_all
  then have lo: "y * (1 - float_eps) * (1 - float_eps) * 10 \<le> fl (fl y / 1000) * 10000"
    using b(1) by simp
  have "fl y * (1 + float_eps) \<le> y * (1 + float_eps) * (1 + float_eps)"
    using a(2) e by (intro mult_right_mono) simp_all
  then have hi: "fl (fl y / 1000) * 10000 \<le> y * (1 + float_eps) * (1 + float_eps) * 10"
    using b(2) by simp
  have sq: "float_eps * float_eps \<le> float_eps"
    using e mult_left_le [of float_eps float_eps] by simp
  have ysq: "y * (float_eps * float_eps) \<le> y * float_eps"
    using sq assms by (rule mult_left_mono)
  have ynn: "0 \<le> y * (float_eps * float_eps)"
    using assms e by simp
  have "y * (1 + float_eps) * (1 + float_eps) * 10 = y * 10 + y * 20 * float_eps
        + 10 * (y * (float_eps * float_eps))"
    by (simp add: algebra_simps)
  with hi ysq have up: "fl (fl y / 1000) * 10000 \<le> y * 10 + y * 30 * float_eps"
    by linarith
  have "y * (1 - float_eps) * (1 - float_eps) * 10 = y * 10 - y * 20 * float_eps
        + 10 * (y * (float_eps * float_eps))"
    by (simp add: algebra_simps)
  with lo ynn have "y * 10 - y * 20 * float_eps \<le> fl (fl y / 1000) * 10000"
    by linarith
  moreover have "0 \<le> y * float_eps"
    using assms e by simp
  ultimately have dn: "y * 10 - y * 30 * float_eps \<le> fl (fl y / 1000) * 10000"
    by linarith
  show ?thesis
    using up dn by (simp add: abs_le_iff)
qed

lemma decimal_7: "decimal 7 = ''7''"
  by (subst decimal.simps) (simp add: digit_char_def)

lemma finalize_empty: "finalize [] = Inr ''7.6677''"
proof -
  let ?x = "fl (fl (76677 / 10) / 1000)"
  have "\<bar>?x * 10000 - 76677 / 10 * 10\<bar> \<le> 76677 / 10 * 30 * float_eps"
    by (rule two_roundings) simp
  then have c: "\<bar>?x * 10000 - real 76677\<bar> < 1 / 2"
    by (simp add: float_eps_def)
  have "0 \<le> ?x"
    by (intro fl_nonneg divide_nonneg_nonneg) simp_all
  from format_4f_near [OF this c] have "format_4f ?x = ''7.6677''"
    by (simp add: decimal_7 digit_char_def)
  then show ?thesis
    by (simp add: finalize_eq)
qed

lemma finalize_7000_8000: "finalize [7000, 8000] = Inr ''7.5000''"
proof -
  have s: "float_sum [7000, 8000] = 15000"
    by (simp add: float_sum_def fl_numeral)
  have m: "fl (15000 / real (length [7000, 8000 :: real])) = 7500"
    by (simp add: fl_numeral)
  have k: "fl (7500 / 1000) = 15 / 2"
    using fl_dyadic [of 15 1] by simp
  have "format_4f (15 / 2) = decimal (75000 div 10000) @ ''.'' @
           [digit_char (75000 div 1000), digit_char (75000 div 100), digit_char (75000 div 10),
            digit_char 75000]"
    by (rule format_4f_near) simp_all
  then have f: "format_4f (15 / 2) = ''7.5000''"
    by (simp add: decimal_7 digit_char_def)
  have "finalize [7000, 8000] =
      Inr (format_4f (fl (fl (float_sum [7000, 8000] / real (length [7000, 8000 :: real])) / 1000)))"
    by (rule finalize_nonempty) simp
  then show ?thesis
    by (simp only: s m k f)
qed

lemma decimal_0: "decimal 0 = ''0''"
  by (subst decimal.simps) (simp add: digit_char_def)

lemma fl_4000: "fl (1 / 4000) = 4611686018427388 / 2 ^ 64"
proof -
  have a: "2 powr real_of_int (- int 12) \<le> \<bar>1 / 4000 :: real\<bar>"
    by (simp only: pow2_neg) simp
  have "- int 12 + 1 = - int 11"
    by simp
  then have b: "\<bar>1 / 4000 :: real\<bar> < 2 powr real_of_int (- int 12 + 1)"
    by (simp only: pow2_neg) simp
  have "- int 12 - 52 = - int 64"
    by simp
  then have u: "2 powr real_of_int (- int 12 - 52) = 1 / 2 ^ 64"
    by (simp only: pow2_neg)
  have "\<bar>(1 / 4000) / (1 / 2 ^ 64) - real_of_int 4611686018427388\<bar> < 1 / 2"
    by simp
  then have r: "round_half_even ((1 / 4000) / (1 / 2 ^ 64)) = 4611686018427388"
    by (rule round_half_even_near)
  show ?thesis
    using fl_eval [OF a b] by (simp only: u r)
qed

lemma finalize_quarter: "finalize [1 / 4] = Inr ''0.0003''"
proof -
  have q: "fl (1 / 4) = 1 / 4"
    using fl_dyadic [of 1 2] by simp
  have s: "fl (fl (float_sum [1 / 4] / real (length [1 / 4 :: real])) / 1000) =
           4611686018427388 / 2 ^ 64"
    using fl_4000 by (simp add: float_sum_def q)
  have "format_4f (4611686018427388 / 2 ^ 64) = decimal (3 div 10000) @ ''.'' @
           [digit_char (3 div 1000), digit_char (3 div 100), digit_char (3 div 10), digit_char 3]"
    by (rule format_4f_near) simp_all
  then have f: "format_4f (4611686018427388 / 2 ^ 64) = ''0.0003''"
    by (simp add: decimal_0 digit_char_def)
  have "finalize [1 / 4] =
      Inr (format_4f (fl (fl (float_sum [1 / 4] / real (length [1 / 4 :: real])) / 1000)))"
    by (rule finalize_nonempty) simp
  then show ?thesis
    by (simp only: s f)
qed

lemma finalize_shape:
  "\<exists>sgn ip fp. finalize vs = Inr (sgn @ ip @ ''.'' @ fp) \<and> (sgn = '''' \<or> sgn = ''-'')
      \<and> ip \<noteq> [] \<and> set ip \<subseteq> set ''0123456789''
      \<and> length fp = 4 \<and> set fp \<subseteq> set ''0123456789''"
proof -
  define x where "x = fl ((if vs = [] then fl (76677 / 10)
                          else fl (float_sum vs / real (length vs))) / 1000)"
  obtain ip fp where "format_4f x = (if x < 0 then ''-'' else '''') @ ip @ ''.'' @ fp"
      "ip \<noteq> []" "set ip \<subseteq> set ''0123456789''" "length fp = 4" "set fp \<subseteq> set ''0123456789''"
    using format_4f_shape [of x] by blast
  then show ?thesis
    unfolding finalize_eq x_def [symmetric]
    by (intro exI [of _ "if x < 0 then ''-'' else ''''"] exI [of _ ip] exI [of _ fp]) simp
qed

lemma finalize_reads_back:
  assumes "vs \<noteq> []" and "\<forall>v\<in>set vs. 0 \<le> v"
  shows "\<exists>ip fp x. finalize vs = Inr (ip @ ''.'' @ fp) \<and> length fp = 4
           \<and> \<bar>real (decimal_value ip) + real (decimal_value fp) / 10000 - x\<bar> \<le> 1 / 20000
           \<and> (1 - float_eps) ^ (length vs + 2) * (sum_list vs / real (length vs) / 1000) \<le> x
           \<and> x \<le> (1 + float_eps) ^ (length vs + 2) * (sum_list vs / real (length vs) / 1000)"
proof -
  let ?m = "fl (float_sum vs / real (length vs))"
  let ?M = "sum_list vs / real (length vs)"
  let ?x = "fl (?m / 1000)"
  have e: "0 < float_eps" "float_eps < 1"
    by (rule float_eps_bounds)+
  have mb: "(1 - float_eps) ^ (length vs + 1) * ?M \<le> ?m"
    "?m \<le> (1 + float_eps) ^ (length vs + 1) * ?M"
    using float_mean_bounds [OF assms] by simp_all
  have "0 \<le> float_sum vs / real (length vs)"
    using float_sum_nonneg [OF assms(2)] by simp
  then have m0: "0 \<le> ?m / 1000"
    using fl_nonneg by simp
  then have x0: "0 \<le> ?x"
    by (rule fl_nonneg)
  have "(1 - float_eps) ^ (length vs + 1) * ?M / 1000 * (1 - float_eps) \<le> ?m / 1000 * (1 - float_eps)"
    using mb(1) e by (intro mult_right_mono divide_right_mono) simp_all
  also have "\<dots> \<le> ?x"
    by (rule fl_lower [OF m0])
  finally have lo: "(1 - float_eps) ^ (length vs + 2) * (?M / 1000) \<le> ?x"
    by (simp add: mult.assoc mult.commute mult.left_commute)
  have "?x \<le> ?m / 1000 * (1 + float_eps)"
    by (rule fl_upper [OF m0])
  also have "\<dots> \<le> (1 + float_eps) ^ (length vs + 1) * ?M / 1000 * (1 + float_eps)"
    using mb(2) e by (intro mult_right_mono divide_right_mono) simp_all
  finally have hi: "?x \<le> (1 + float_eps) ^ (length vs + 2) * (?M / 1000)"
    by (simp add: mult.assoc mult.commute mult.left_commute)
  obtain ip fp where "format_4f ?x = ip @ ''.'' @ fp" "length fp = 4"
    "\<bar>real (decimal_value ip) + real (decimal_value fp) / 10000 - ?x\<bar> \<le> 1 / 20000"
    using format_4f_reads_back [OF x0] by blast
  then show ?thesis
    using lo hi assms(1)
    by (intro exI [of _ ip] exI [of _ fp] exI [of _ ?x]) (simp add: finalize_eq)
qed

lemma main_with_done:
  assumes "acquisition_loop start (initial_state s now0) envs = Done st"
  shows "\<exists>out. finalize (v_list st) = Inr out
      \<and> main_with None s start now0 envs =
          Some \<lparr>raised = None, cam_close_calls = 1, result_txt = [out]\<rparr>
      \<and> main_with (Some x) s start now0 envs =
          Some \<lparr>raised = Some x, cam_close_calls = 1, result_txt = []\<rparr>"
  using assms by (simp add: main_with_def finalize_eq cam_close_def write_result_def)

lemma main_with_raised:
  assumes "acquisition_loop start (initial_state s now0) envs = Raised x"
  shows "main_with wr s start now0 envs =
          Some \<lparr>raised = Some x, cam_close_calls = 0, result_txt = []\<rparr>"
  using assms by (simp add: main_with_def)

text \<open>
  Claim C4 as stated fails on the code in its last part, "the run always writes a result":
  when the camera raises at the first capture, the exception leaves the loop and the run
  ends with nothing written.
\<close>

theorem run_without_result:
  "main_with None 418000 0 0
     [(world_answers 1000000 (Inr ([], [])) (Inr []))\<lparr>capture_raises := Some CameraError\<rparr>]
   = Some \<lparr>raised = Some CameraError, cam_close_calls = 0, result_txt = []\<rparr>"
proof -
  have "acquisition_loop 0 (initial_state 418000 0)
     [(world_answers 1000000 (Inr ([], [])) (Inr []))\<lparr>capture_raises := Some CameraError\<rparr>]
     = Raised CameraError"
    by (simp add: nine_minutes_def initial_state_def iteration_def evict_oldest_def
        world_answers_def)
  then show ?thesis
    by (rule main_with_raised)
qed

text \<open>
  Claim C4, amended. The text produced from the velocity samples never is a fault. For an
  empty sequence it is the fallback \<open>7.6677\<close> (7667.7 m/s). For a non-empty sequence it is
  the float sum of the samples divided by their number and then by 1000, formatted by
  \<open>format_4f\<close>: an optional sign, at least one digit, a point and exactly four digits; for
  non-negative samples the formatted float lies between \<open>(1 - 2^-53) ^ (n + 2)\<close> and
  \<open>(1 + 2^-53) ^ (n + 2)\<close> times the arithmetic mean of the \<open>n\<close> samples in km/s, and the
  text read back as a number is within 0.00005 of it. A run whose loop ends at its time
  bound closes the camera and writes this text once, as the whole content of the result
  file, unless opening or writing the file raises; a run whose loop is left by an exception
  writes no result.
\<close>

theorem finalize_writes_mean_or_fallback:
  "finalize [] = Inr ''7.6677''
   \<and> (vs \<noteq> [] \<longrightarrow>
        finalize vs = Inr (format_4f (fl (fl (float_sum vs / real (length vs)) / 1000))))
   \<and> (\<exists>sgn ip fp. finalize vs = Inr (sgn @ ip @ ''.'' @ fp) \<and> (sgn = '''' \<or> sgn = ''-'')
         \<and> ip \<noteq> [] \<and> set ip \<subseteq> set ''0123456789''
         \<and> length fp = 4 \<and> set fp \<subseteq> set ''0123456789'')
   \<and> (vs \<noteq> [] \<and> (\<forall>v\<in>set vs. 0 \<le> v) \<longrightarrow>
        (\<exists>ip fp x. finalize vs = Inr (ip @ ''.'' @ fp) \<and> length fp = 4
           \<and> \<bar>real (decimal_value ip) + real (decimal_value fp) / 10000 - x\<bar> \<le> 1 / 20000
           \<and> (1 - float_eps) ^ (length vs + 2) * (sum_list vs / real (length vs) / 1000) \<le> x
           \<and> x \<le> (1 + float_eps) ^ (length vs + 2) * (sum_list vs / real (length vs) / 1000)))
   \<and> (acquisition_loop start (initial_state s now0) envs = Done st \<longrightarrow>
        (\<exists>out. finalize (v_list st) = Inr out
           \<and> main_with None s start now0 envs =
               Some \<lparr>raised = None, cam_close_calls = 1, result_txt = [out]\<rparr>
           \<and> main_with (Some x) s start now0 envs =
               Some \<lparr>raised = Some x, cam_close_calls = 1, result_txt = []\<rparr>))
   \<and> (acquisition_loop start (initial_state s now0) envs = Raised x \<longrightarrow>
        main_with wr s start now0 envs =
          Some \<lparr>raised = Some x, cam_close_calls = 0, result_txt = []\<rparr>)"
  using finalize_empty finalize_nonempty [of vs] finalize_shape [of vs]
    finalize_reads_back [of vs] main_with_done [of start s now0 envs st x]
    main_with_raised [of start s now0 envs x wr]
  by blast

lemma loop_one_late_frame:
  "acquisition_loop 0 (initial_state s 0) [world_answers 600000000 det bf] =
     Done \<lparr>k_counter = 0, now_time = 600000000, images_deque = [Photo 0], unlinked = [],
           h_list = [s], v_list = []\<rparr>"
  by (simp add: iteration_calm initial_state_sel nine_minutes_def initial_state_def)

theorem finalize_writes_mean_or_fallback_witness:
  "finalize [7000, 8000] = Inr ''7.5000''
   \<and> finalize [1 / 4] = Inr ''0.0003''
   \<and> main_with None 418000 0 0 [world_answers 600000000 (Inr ([], [])) (Inr [])] =
       Some \<lparr>raised = None, cam_close_calls = 1, result_txt = [''7.6677'']\<rparr>
   \<and> main_with (Some OSError) 418000 0 0 [world_answers 600000000 (Inr ([], [])) (Inr [])] =
       Some \<lparr>raised = Some OSError, cam_close_calls = 1, result_txt = []\<rparr>"
proof -
  note t = finalize_writes_mean_or_fallback
    [of "[7000, 8000]" 0 418000 0 "[world_answers 600000000 (Inr ([], [])) (Inr [])]"
        "\<lparr>k_counter = 0, now_time = 600000000, images_deque = [Photo 0], unlinked = [],
           h_list = [418000], v_list = []\<rparr>" OSError None]
  have a: "finalize [7000, 8000] = Inr ''7.5000''"
    by (rule finalize_7000_8000)
  have b: "main_with None 418000 0 0 [world_answers 600000000 (Inr ([], [])) (Inr [])] =
       Some \<lparr>raised = None, cam_close_calls = 1, result_txt = [''7.6677'']\<rparr>
     \<and> main_with (Some OSError) 418000 0 0 [world_answers 600000000 (Inr ([], [])) (Inr [])] =
       Some \<lparr>raised = Some OSError, cam_close_calls = 1, result_txt = []\<rparr>"
    using t loop_one_late_frame [of 418000 "Inr ([], [])" "Inr []"] by auto
  show ?thesis
    using a b finalize_quarter by simp
qed

section \<open>Zero displacement\<close>

text \<open>
  Claim C1 as stated fails on the code. Two identical frames with one keypoint each, matched
  to each other, have mean displacement 0; the second iteration runs the solver, nothing is
  skipped, and the run holds one velocity sample afterwards.
\<close>

theorem identical_frames_append_a_sample:
  "measure_displacement [(1, 2)] [(1, 2)] (sort_key distance one_match) = Inr 0
   \<and> acquisition_loop 0 (initial_state 418000 0)
       [world_answers 1000000 (Inr ([], [])) (Inr []),
        world_answers 2000000 (Inr ([(1, 2)], [(1, 2)])) (Inr one_match)]
     = Running \<lparr>k_counter = 1, now_time = 2000000, images_deque = [Photo 0, Photo 1],
                unlinked = [], h_list = [418000, 400000],
                v_list = [sqrt (G_default * M_default / (R_default + 400000))]\<rparr>"
proof -
  have m: "measure_displacement [(1, 2)] [(1, 2)] (sort_key distance one_match) = Inr 0"
    by (simp add: measure_one_match distance_same distance_0_10 distance_3_4)
  show ?thesis
    using m
    by (simp add: iteration_calm initial_state_sel nine_minutes_def initial_state_def
        compare_frames_measured [OF _ _ m] world_answers_sel solver_zero)
qed

text \<open>
  Claim C1, amended. Whenever the displacement of a frame pair has been measured, zero or
  not, the solver is run on it; a velocity and an altitude are appended when it returns, and
  only \<^verbatim>\<open>cv2.error\<close> and \<^verbatim>\<open>ZeroDivisionError\<close> are swallowed. When the
  measured displacement is exactly 0 the comparison never raises and exactly one velocity
  sample is appended to the sample sequence: the pair is solved, not skipped.
\<close>

theorem zero_displacement_is_solved_not_skipped:
  assumes "detected e = Inr (kp1, kp2)" and "bf_match e = Inr raw"
    and "measure_displacement kp1 kp2 (sort_key distance raw) = Inr d"
  shows "compare_frames st prev e =
           (case solver d (real_of_int (now_time st - prev) / 1000000) of
              Inr (v, h) \<Rightarrow> Inr (st\<lparr>h_list := h_list st @ [h], v_list := v_list st @ [v]\<rparr>)
            | Inl x \<Rightarrow> if x = Cv2Error \<or> x = ZeroDivisionError then Inr st else Inl x)
    \<and> (d = 0 \<longrightarrow>
         (\<exists>st'. compare_frames st prev e = Inr st'
                \<and> length (v_list st') = length (v_list st) + 1))"
  using compare_frames_measured [OF assms, of st prev] by (simp add: solver_zero)

theorem zero_displacement_is_solved_not_skipped_witness:
  "measure_displacement [(1, 2)] [(1, 2)] (sort_key distance one_match) = Inr 0
   \<and> (\<exists>st'. compare_frames (initial_state 418000 2000000) 1000000
               (world_answers 2000000 (Inr ([(1, 2)], [(1, 2)])) (Inr one_match)) = Inr st'
            \<and> length (v_list st') = 1)"
proof -
  have m: "measure_displacement [(1, 2)] [(1, 2)] (sort_key distance one_match) = Inr 0"
    by (simp add: measure_one_match distance_same distance_0_10 distance_3_4)
  show ?thesis
    using m zero_displacement_is_solved_not_skipped
      [OF _ _ m, of "world_answers 2000000 (Inr ([(1, 2)], [(1, 2)])) (Inr one_match)"
         "initial_state 418000 2000000" 1000000, THEN conjunct2]
    by (simp add: world_answers_sel initial_state_sel)
qed

lemma compare_frames_extends:
  assumes "compare_frames st prev e = Inr st'"
  shows "(\<exists>more. v_list st' = v_list st @ more) \<and> k_counter st' = k_counter st"
  using assms
  by (auto simp: compare_frames_def Let_def split: sum.splits prod.splits if_splits)

lemma iteration_extends:
  assumes "iteration st e = Inr st'"
  shows "(\<exists>more. v_list st' = v_list st @ more) \<and> k_counter st' = k_counter st + 1"
proof -
  from assms obtain dq ul where c: "capture_raises e = None"
    and s: "(if k_counter st + 1 \<noteq> 0
          then compare_frames (st\<lparr>k_counter := k_counter st + 1, now_time := clock e,
                 images_deque := dq @ [Photo (k_counter st + 1)], unlinked := ul\<rparr>) (now_time st) e
          else Inr (st\<lparr>k_counter := k_counter st + 1, now_time := clock e,
                 images_deque := dq @ [Photo (k_counter st + 1)], unlinked := ul\<rparr>)) = Inr st'"
    by (auto simp: iteration_def Let_def split: sum.splits prod.splits option.splits)
  show ?thesis
  proof (cases "k_counter st + 1 \<noteq> 0")
    case True
    with s compare_frames_extends show ?thesis
      by fastforce
  next
    case False
    with s show ?thesis
      by auto
  qed
qed

lemma acquisition_loop_extends:
  assumes "final_state (acquisition_loop start st envs) = Some st'"
  shows "\<exists>more. v_list st' = v_list st @ more"
  using assms
proof (induction envs arbitrary: st)
  case Nil
  then show ?case
    by (simp split: if_splits)
next
  case (Cons e es)
  show ?case
  proof (cases "now_time st < start + nine_minutes")
    case False
    with Cons.prems show ?thesis
      by simp
  next
    case True
    with Cons.prems obtain st1 where i: "iteration st e = Inr st1"
      and r: "final_state (acquisition_loop start st1 es) = Some st'"
      by (cases "iteration st e") simp_all
    from iteration_extends [OF i] obtain m1 where "v_list st1 = v_list st @ m1"
      by blast
    moreover from Cons.IH [OF r] obtain m2 where "v_list st' = v_list st1 @ m2"
      by blast
    ultimately show ?thesis
      by simp
  qed
qed

lemma acquisition_loop_append:
  assumes "acquisition_loop start st pre = Running st'"
  shows "acquisition_loop start st (pre @ rest) = acquisition_loop start st' rest
    \<and> k_counter st' = k_counter st + int (length pre)"
  using assms
proof (induction pre arbitrary: st)
  case Nil
  then show ?case
    by (simp split: if_splits)
next
  case (Cons e es)
  from Cons.prems have t: "now_time st < start + nine_minutes"
    by (simp split: if_splits)
  with Cons.prems obtain st1 where i: "iteration st e = Inr st1"
    and r: "acquisition_loop start st1 es = Running st'"
    by (cases "iteration st e") simp_all
  show ?case
    using Cons.IH [OF r] iteration_extends [OF i] t i by simp
qed

lemma acquisition_loop_running:
  assumes "acquisition_loop start st envs = Running st'"
  shows "now_time st' < start + nine_minutes"
  using assms
proof (induction envs arbitrary: st)
  case Nil
  then show ?case
    by (simp split: if_splits)
next
  case (Cons e es)
  then show ?case
    by (cases "iteration st e") (simp_all split: if_splits)
qed

lemma iteration_zero_displacement:
  assumes "detected e = Inr (kp1, kp2)" and "bf_match e = Inr raw"
    and "measure_displacement kp1 kp2 (sort_key distance raw) = Inr 0"
    and "k_counter st + 1 \<noteq> 0" and "iteration st e = Inr st'"
  shows "v_list st' = v_list st @ [sqrt (G_default * M_default / (R_default + 400000))]"
proof -
  from assms(4,5) obtain dq ul where
    "compare_frames (st\<lparr>k_counter := k_counter st + 1, now_time := clock e,
         images_deque := dq @ [Photo (k_counter st + 1)], unlinked := ul\<rparr>) (now_time st) e
       = Inr st'"
    by (auto simp: iteration_def Let_def split: sum.splits prod.splits option.splits)
  then show ?thesis
    using compare_frames_measured [OF assms(1-3)] by (auto simp: solver_zero)
qed

lemma main_with_written:
  assumes "acquisition_loop start (initial_state s now0) envs = Done st" and "v_list st \<noteq> []"
  shows "main_with None s start now0 envs =
     Some \<lparr>raised = None, cam_close_calls = 1,
           result_txt = [format_4f (fl (fl (float_sum (v_list st) / real (length (v_list st)))
                                         / 1000))]\<rparr>"
  using assms by (simp add: main_with_def finalize_eq cam_close_def write_result_def)

lemma orbital_speed_seed_digits:
  "766859 / 100 < sqrt (G_default * M_default / (R_default + 400000))"
  "sqrt (G_default * M_default / (R_default + 400000)) < 766861 / 100"
proof -
  have "(766859 / 100 :: real)\<^sup>2 < G_default * M_default / (R_default + 400000)"
    by (simp add: G_default_def M_default_def R_default_def power2_eq_square)
  then show "766859 / 100 < sqrt (G_default * M_default / (R_default + 400000))"
    by (rule real_less_rsqrt)
  have "G_default * M_default / (R_default + 400000) < (766861 / 100 :: real)\<^sup>2"
    by (simp add: G_default_def M_default_def R_default_def power2_eq_square)
  then show "sqrt (G_default * M_default / (R_default + 400000)) < 766861 / 100"
    by (intro real_less_lsqrt) simp_all
qed

lemma format_seed_speed:
  "format_4f (fl (fl (float_sum [sqrt (G_default * M_default / (R_default + 400000))]
                      / real (length [sqrt (G_default * M_default / (R_default + 400000))]))
                  / 1000)) = ''7.6686''"
proof -
  define c where "c = sqrt (G_default * M_default / (R_default + 400000))"
  have b: "766859 / 100 < c" "c < 766861 / 100"
    unfolding c_def by (rule orbital_speed_seed_digits)+
  then have p: "0 \<le> c"
    by simp
  have s: "fl (float_sum [c] / real (length [c])) = fl c"
    by (simp add: float_sum_def fl_fl)
  let ?x = "fl (fl c / 1000)"
  have "c * 30 * float_eps \<le> 766861 / 100 * 30 * float_eps"
    using b(2) float_eps_bounds(1) by (intro mult_right_mono) simp_all
  also have "\<dots> < 1 / 10"
    by (simp add: float_eps_def)
  finally have "c * 30 * float_eps < 1 / 10" .
  with two_roundings [OF p] have "\<bar>?x * 10000 - c * 10\<bar> < 1 / 10"
    by linarith
  with b have "\<bar>?x * 10000 - 76686\<bar> < 1 / 2"
    by linarith
  then have n: "\<bar>?x * 10000 - real 76686\<bar> < 1 / 2"
    by simp
  have "0 \<le> ?x"
    using p by (intro fl_nonneg divide_nonneg_nonneg) simp_all
  from format_4f_near [OF this n] have "format_4f ?x = ''7.6686''"
    by (simp add: decimal_7 digit_char_def)
  then show ?thesis
    unfolding c_def [symmetric] s .
qed

text \<open>
  Claim C9. For every frame pair whose mean displacement is 0, whatever the keypoints, the
  matches and the elapsed time, the appended velocity is exactly
  \<open>sqrt (G M / (R + 400000))\<close>, the orbital speed at the seed altitude (and the appended
  altitude is the seed). In every run of the program in which such a pair is compared (at
  an iteration after the first, reached with the loop still inside its 9 minutes) and whose
  loop ends at its time bound, this value stands in the final sample sequence at the place
  of that iteration, and the text written to the result file is the formatted float mean of
  that sequence.
\<close>

theorem zero_displacement_sample_is_seed_speed:
  assumes "detected e = Inr (kp1, kp2)" and "bf_match e = Inr raw"
    and "measure_displacement kp1 kp2 (sort_key distance raw) = Inr 0"
  shows "compare_frames st prev e =
           Inr (st\<lparr>h_list := h_list st @ [400000],
                   v_list := v_list st @ [sqrt (G_default * M_default / (R_default + 400000))]\<rparr>)
    \<and> (pre \<noteq> [] \<and> acquisition_loop start (initial_state s now0) pre = Running st0
         \<and> acquisition_loop start (initial_state s now0) (pre @ e # es) = Done st2 \<longrightarrow>
        (\<exists>more. v_list st2 =
                  v_list st0 @ [sqrt (G_default * M_default / (R_default + 400000))] @ more
           \<and> main_with None s start now0 (pre @ e # es) =
               Some \<lparr>raised = None, cam_close_calls = 1,
                     result_txt = [format_4f (fl (fl (float_sum (v_list st2)
                                                      / real (length (v_list st2))) / 1000))]\<rparr>))"
proof (intro conjI impI)
  show "compare_frames st prev e =
           Inr (st\<lparr>h_list := h_list st @ [400000],
                   v_list := v_list st @ [sqrt (G_default * M_default / (R_default + 400000))]\<rparr>)"
    using compare_frames_measured [OF assms, of st prev] by (simp add: solver_zero)
next
  assume a: "pre \<noteq> [] \<and> acquisition_loop start (initial_state s now0) pre = Running st0
         \<and> acquisition_loop start (initial_state s now0) (pre @ e # es) = Done st2"
  then have r: "acquisition_loop start (initial_state s now0) pre = Running st0"
    and d: "acquisition_loop start (initial_state s now0) (pre @ e # es) = Done st2"
    by simp_all
  from acquisition_loop_append [OF r, of "e # es"] d
  have l: "acquisition_loop start st0 (e # es) = Done st2"
    and "k_counter st0 = k_counter (initial_state s now0) + int (length pre)"
    by simp_all
  with a have k: "k_counter st0 + 1 \<noteq> 0"
    by (simp add: initial_state_def)
  have t: "now_time st0 < start + nine_minutes"
    using r by (rule acquisition_loop_running)
  with l obtain st1 where i: "iteration st0 e = Inr st1"
    and f: "acquisition_loop start st1 es = Done st2"
    by (cases "iteration st0 e") simp_all
  have v: "v_list st1 = v_list st0 @ [sqrt (G_default * M_default / (R_default + 400000))]"
    using assms k i by (rule iteration_zero_displacement)
  from f have "final_state (acquisition_loop start st1 es) = Some st2"
    by simp
  then obtain more where m: "v_list st2 = v_list st1 @ more"
    using acquisition_loop_extends by blast
  with v have w: "v_list st2 =
      v_list st0 @ [sqrt (G_default * M_default / (R_default + 400000))] @ more"
    by simp
  then have "v_list st2 \<noteq> []"
    by simp
  with d have "main_with None s start now0 (pre @ e # es) =
     Some \<lparr>raised = None, cam_close_calls = 1,
           result_txt = [format_4f (fl (fl (float_sum (v_list st2) / real (length (v_list st2)))
                                         / 1000))]\<rparr>"
    by (rule main_with_written)
  with w show "\<exists>more. v_list st2 =
                  v_list st0 @ [sqrt (G_default * M_default / (R_default + 400000))] @ more
           \<and> main_with None s start now0 (pre @ e # es) =
               Some \<lparr>raised = None, cam_close_calls = 1,
                     result_txt = [format_4f (fl (fl (float_sum (v_list st2)
                                                      / real (length (v_list st2))) / 1000))]\<rparr>"
    by blast
qed

lemma run_of_two_identical_frames:
  "acquisition_loop 0 (initial_state 418000 0)
     [world_answers 1000000 (Inr ([], [])) (Inr [])] =
     Running \<lparr>k_counter = 0, now_time = 1000000, images_deque = [Photo 0], unlinked = [],
              h_list = [418000], v_list = []\<rparr>"
  "measure_displacement [(1, 2)] [(1, 2)] (sort_key distance one_match) = Inr 0
   \<Longrightarrow> acquisition_loop 0 (initial_state 418000 0)
     [world_answers 1000000 (Inr ([], [])) (Inr []),
      world_answers 600000000 (Inr ([(1, 2)], [(1, 2)])) (Inr one_match)] =
     Done \<lparr>k_counter = 1, now_time = 600000000, images_deque = [Photo 0, Photo 1],
           unlinked = [], h_list = [418000, 400000],
           v_list = [sqrt (G_default * M_default / (R_default + 400000))]\<rparr>"
proof -
  show "acquisition_loop 0 (initial_state 418000 0)
     [world_answers 1000000 (Inr ([], [])) (Inr [])] =
     Running \<lparr>k_counter = 0, now_time = 1000000, images_deque = [Photo 0], unlinked = [],
              h_list = [418000], v_list = []\<rparr>"
    by (simp add: first_iteration nine_minutes_def initial_state_sel)
next
  assume m: "measure_displacement [(1, 2)] [(1, 2)] (sort_key distance one_match) = Inr 0"
  have c: "compare_frames st prev (world_answers 600000000 (Inr ([(1, 2)], [(1, 2)])) (Inr one_match))
      = Inr (st\<lparr>h_list := h_list st @ [400000],
                v_list := v_list st @ [sqrt (G_default * M_default / (R_default + 400000))]\<rparr>)"
    for st prev
    using compare_frames_measured [OF _ _ m,
        of "world_answers 600000000 (Inr ([(1, 2)], [(1, 2)])) (Inr one_match)" st prev]
    by (simp add: world_answers_sel solver_zero)
  show "acquisition_loop 0 (initial_state 418000 0)
     [world_answers 1000000 (Inr ([], [])) (Inr []),
      world_answers 600000000 (Inr ([(1, 2)], [(1, 2)])) (Inr one_match)] =
     Done \<lparr>k_counter = 1, now_time = 600000000, images_deque = [Photo 0, Photo 1],
           unlinked = [], h_list = [418000, 400000],
           v_list = [sqrt (G_default * M_default / (R_default + 400000))]\<rparr>"
    by (simp add: first_iteration nine_minutes_def initial_state_sel iteration_calm c)
qed

theorem zero_displacement_sample_is_seed_speed_witness:
  "measure_displacement [(1, 2)] [(1, 2)] (sort_key distance one_match) = Inr 0
   \<and> compare_frames (initial_state 418000 2000000) 1000000
        (world_answers 600000000 (Inr ([(1, 2)], [(1, 2)])) (Inr one_match))
      = Inr \<lparr>k_counter = - 1, now_time = 2000000, images_deque = [], unlinked = [],
             h_list = [418000, 400000],
             v_list = [sqrt (G_default * M_default / (R_default + 400000))]\<rparr>
   \<and> main 0 0 [world_answers 1000000 (Inr ([], [])) (Inr []),
               world_answers 600000000 (Inr ([(1, 2)], [(1, 2)])) (Inr one_match)] =
       Some \<lparr>raised = None, cam_close_calls = 1, result_txt = [''7.6686'']\<rparr>"
proof -
  have m: "measure_displacement [(1, 2)] [(1, 2)] (sort_key distance one_match) = Inr 0"
    by (simp add: measure_one_match distance_same)
  note t = zero_displacement_sample_is_seed_speed
      [OF _ _ m, of "world_answers 600000000 (Inr ([(1, 2)], [(1, 2)])) (Inr one_match)"
         "initial_state 418000 2000000" 1000000
         "[world_answers 1000000 (Inr ([], [])) (Inr [])]" 0 418000 0
         "\<lparr>k_counter = 0, now_time = 1000000, images_deque = [Photo 0], unlinked = [],
              h_list = [418000], v_list = []\<rparr>" "[]"
         "\<lparr>k_counter = 1, now_time = 600000000, images_deque = [Photo 0, Photo 1],
           unlinked = [], h_list = [418000, 400000],
           v_list = [sqrt (G_default * M_default / (R_default + 400000))]\<rparr>"]
  have a: "compare_frames (initial_state 418000 2000000) 1000000
        (world_answers 600000000 (Inr ([(1, 2)], [(1, 2)])) (Inr one_match))
      = Inr \<lparr>k_counter = - 1, now_time = 2000000, images_deque = [], unlinked = [],
             h_list = [418000, 400000],
             v_list = [sqrt (G_default * M_default / (R_default + 400000))]\<rparr>"
    using t by (simp add: world_answers_sel initial_state_def)
  have "main_with None 418000 0 0 [world_answers 1000000 (Inr ([], [])) (Inr []),
               world_answers 600000000 (Inr ([(1, 2)], [(1, 2)])) (Inr one_match)] =
     Some \<lparr>raised = None, cam_close_calls = 1,
           result_txt = [format_4f (fl (fl (float_sum
             [sqrt (G_default * M_default / (R_default + 400000))]
             / real (length [sqrt (G_default * M_default / (R_default + 400000))])) / 1000))]\<rparr>"
    using t run_of_two_identical_frames(1) run_of_two_identical_frames(2) [OF m]
    by (simp add: world_answers_sel)
  then have b: "main 0 0 [world_answers 1000000 (Inr ([], [])) (Inr []),
               world_answers 600000000 (Inr ([(1, 2)], [(1, 2)])) (Inr one_match)] =
       Some \<lparr>raised = None, cam_close_calls = 1, result_txt = [''7.6686'']\<rparr>"
    by (simp only: format_seed_speed main_def main_from_def)
  show ?thesis
    using m a b by simp
qed

section \<open>A square root of a negative number\<close>

text \<open>
  Claim C6 says that every arithmetic fault of the solver, a division by zero or a domain
  error of the square root, is caught and costs only the sample. The handler of line 118
  lists \<^verbatim>\<open>ZeroDivisionError\<close> and not \<^verbatim>\<open>ValueError\<close>. With a mean
  displacement of 1 pixel and a wall clock that reads one second less than at the previous
  iteration, the first round leaves an altitude below \<open>- R\<close>, the second round takes the
  square root of a negative number, and the exception leaves the loop: the run ends without
  closing the camera and without writing a result.
\<close>

theorem sqrt_domain_error_leaves_the_loop:
  "solver 1 (- 1) = Inl ValueError
   \<and> acquisition_loop 0 (initial_state 418000 0)
       [world_answers 2000000 (Inr ([], [])) (Inr []),
        world_answers 1000000 (Inr ([(0, 0)], [(1, 0)])) (Inr one_match)] = Raised ValueError
   \<and> main 0 0
       [world_answers 2000000 (Inr ([], [])) (Inr []),
        world_answers 1000000 (Inr ([(0, 0)], [(1, 0)])) (Inr one_match)]
       = Some \<lparr>raised = Some ValueError, cam_close_calls = 0, result_txt = []\<rparr>"
proof -
  have m: "measure_displacement [(0, 0)] [(1, 0)] (sort_key distance one_match) = Inr 1"
    by (simp add: measure_one_match distance_same distance_0_10 distance_3_4)
  have c: "compare_frames st 2000000 (world_answers 1000000 (Inr ([(0, 0)], [(1, 0)])) (Inr one_match))
      = Inl ValueError" if "now_time st = 1000000" for st
    using that compare_frames_measured [OF _ _ m, of "world_answers 1000000 (Inr ([(0, 0)], [(1, 0)])) (Inr one_match)" st 2000000]
    by (simp add: world_answers_sel solver_backwards)
  have l: "acquisition_loop 0 (initial_state 418000 0)
       [world_answers 2000000 (Inr ([], [])) (Inr []),
        world_answers 1000000 (Inr ([(0, 0)], [(1, 0)])) (Inr one_match)] = Raised ValueError"
    by (simp add: iteration_calm initial_state_sel nine_minutes_def c)
  show ?thesis
    using l by (simp add: solver_backwards main_def main_from_def main_with_def)
qed

section \<open>The altitude history is write-only\<close>

lemma forget_h_fields:
  assumes "forget_h st = forget_h st'"
  shows "k_counter st = k_counter st'" "now_time st = now_time st'"
    "images_deque st = images_deque st'" "unlinked st = unlinked st'" "v_list st = v_list st'"
proof -
  have "k_counter (forget_h st) = k_counter (forget_h st')"
       "now_time (forget_h st) = now_time (forget_h st')"
       "images_deque (forget_h st) = images_deque (forget_h st')"
       "unlinked (forget_h st) = unlinked (forget_h st')"
       "v_list (forget_h st) = v_list (forget_h st')"
    using assms by simp_all
  then show "k_counter st = k_counter st'" "now_time st = now_time st'"
    "images_deque st = images_deque st'" "unlinked st = unlinked st'" "v_list st = v_list st'"
    by (simp_all add: forget_h_def)
qed

lemma forget_h_as_update:
  assumes "forget_h st = forget_h st'"
  shows "st' = st\<lparr>h_list := h_list st'\<rparr>"
  using forget_h_fields [OF assms] by simp

lemma compare_frames_forget_h:
  "map_sum id forget_h (compare_frames (st\<lparr>h_list := hs\<rparr>) prev e) =
   map_sum id forget_h (compare_frames st prev e)"
  by (simp add: compare_frames_def forget_h_def split: sum.splits prod.splits)

lemma iteration_forget_h:
  "map_sum id forget_h (iteration (st\<lparr>h_list := hs\<rparr>) e) =
   map_sum id forget_h (iteration st e)"
proof -
  have u: "st\<lparr>h_list := hs, k_counter := a, now_time := b, images_deque := c, unlinked := d\<rparr> =
           st\<lparr>k_counter := a, now_time := b, images_deque := c, unlinked := d, h_list := hs\<rparr>"
    for a b c d
    by simp
  have f: "forget_h (s\<lparr>h_list := hs\<rparr>) = forget_h s" for s
    by (simp add: forget_h_def)
  show ?thesis
    by (simp add: iteration_def Let_def u f compare_frames_forget_h
        split: sum.splits prod.splits option.splits)
qed


lemma acquisition_loop_forget_h:
  "forget_h st = forget_h st' \<Longrightarrow>
   outcome_forget_h (acquisition_loop start st envs) =
   outcome_forget_h (acquisition_loop start st' envs)"
proof (induction envs arbitrary: st st')
  case Nil
  then show ?case
    using forget_h_fields(2) [OF Nil] by simp
next
  case (Cons e es)
  have t: "now_time st = now_time st'"
    using forget_h_fields(2) [OF Cons.prems] .
  have st': "st' = st\<lparr>h_list := h_list st'\<rparr>"
    using forget_h_as_update [OF Cons.prems] .
  have i: "map_sum id forget_h (iteration st' e) = map_sum id forget_h (iteration st e)"
    by (subst st') (rule iteration_forget_h)
  show ?case
  proof (cases "iteration st e")
    case (Inl x)
    with i have "iteration st' e = Inl x"
      by (cases "iteration st' e") simp_all
    with Inl t Cons.prems show ?thesis by simp
  next
    case (Inr a)
    with i obtain b where b: "iteration st' e = Inr b" "forget_h a = forget_h b"
      by (cases "iteration st' e") simp_all
    show ?thesis
      using Inr b(1) t Cons.IH [OF b(2)] Cons.prems by simp
  qed
qed

lemma main_from_outcome:
  "main_from s start now0 envs =
     (case outcome_forget_h (acquisition_loop start (initial_state s now0) envs) of
        Running st \<Rightarrow> None
      | Raised x \<Rightarrow> Some \<lparr>raised = Some x, cam_close_calls = 0, result_txt = []\<rparr>
      | Done st \<Rightarrow>
          (case finalize (v_list st) of
             Inl x \<Rightarrow> Some \<lparr>raised = Some x, cam_close_calls = 1, result_txt = []\<rparr>
           | Inr output_string \<Rightarrow>
               Some \<lparr>raised = None, cam_close_calls = 1, result_txt = [output_string]\<rparr>))"
  by (cases "acquisition_loop start (initial_state s now0) envs")
     (simp_all add: main_from_def main_with_def cam_close_def write_result_def forget_h_def finalize_eq)

text \<open>
  Claim C10. The run's observable result (the exception, the calls of
  \<^verbatim>\<open>cam.close()\<close> and the text written to \<^verbatim>\<open>result.txt\<close>) does not
  depend on the seed of \<open>h_list\<close>: the solver starts from 400000 and never reads the
  list, so two runs that differ only in the seed (418000 in \<open>main\<close>) write the same
  text.
\<close>

theorem result_ignores_altitude_history:
  "main_from s1 start now0 envs = main_from s2 start now0 envs
   \<and> main start now0 envs = main_from s2 start now0 envs"
proof -
  have "forget_h (initial_state s start') = forget_h (initial_state s' start')" for s s' start'
    by (simp add: forget_h_def initial_state_def)
  then have "outcome_forget_h (acquisition_loop start (initial_state s now0) envs) =
             outcome_forget_h (acquisition_loop start (initial_state s' now0) envs)" for s s'
    by (rule acquisition_loop_forget_h)
  then have "main_from s start now0 envs = main_from s' start now0 envs" for s s'
    using main_from_outcome [of s start now0 envs] main_from_outcome [of s' start now0 envs]
    by metis
  then show ?thesis
    by (simp add: main_def)
qed

theorem result_ignores_altitude_history_witness:
  "main_from 0 0 0 [world_answers 600000000 (Inr ([], [])) (Inr [])] =
   main_from 418000 0 0 [world_answers 600000000 (Inr ([], [])) (Inr [])]"
  using result_ignores_altitude_history
    [of 0 0 0 "[world_answers 600000000 (Inr ([], [])) (Inr [])]" 418000]
  by simp

section \<open>The frame buffer\<close>

lemma compare_frames_buffer:
  assumes "compare_frames st prev e = Inr st'"
  shows "k_counter st' = k_counter st" "images_deque st' = images_deque st"
    "unlinked st' = unlinked st"
  using assms
  by (auto simp: compare_frames_def split: sum.splits prod.splits if_splits)

lemma evict_oldest_full:
  assumes "evict_oldest dq ul e = Inr (dq', ul')" and "42 \<le> length dq"
  shows "dq = hd dq # dq' \<and> ul' = ul @ [hd dq]"
  using assms by (auto simp: evict_oldest_def split: list.splits option.splits)

lemma evict_oldest_room:
  assumes "evict_oldest dq ul e = Inr (dq', ul')" and "length dq < 42"
  shows "dq' = dq \<and> ul' = ul"
  using assms by (auto simp: evict_oldest_def)

lemma upto_snoc: "i \<le> j + 1 \<Longrightarrow> [i .. j + 1] = [i .. j] @ [j + 1]" for i j :: int
  using upto_rec2 [of i "j + 1"] by simp

lemma iteration_buffer_inv:
  assumes "iteration st e = Inr st'" and "buffer_inv st"
  shows "buffer_inv st'"
proof -
  let ?k = "k_counter st"
  obtain dq ul where ev: "evict_oldest (images_deque st) (unlinked st) e = Inr (dq, ul)"
    using assms(1) by (auto simp: iteration_def Let_def split: sum.splits)
  have cap: "capture_raises e = None"
    using assms(1) ev by (auto simp: iteration_def Let_def split: option.splits)
  let ?st1 = "st\<lparr>k_counter := ?k + 1, now_time := clock e,
                images_deque := dq @ [Photo (?k + 1)], unlinked := ul\<rparr>"
  have "(if ?k + 1 \<noteq> 0 then compare_frames ?st1 (now_time st) e else Inr ?st1) = Inr st'"
    using assms(1) ev cap by (simp add: iteration_def Let_def)
  then have same: "k_counter st' = ?k + 1" "images_deque st' = dq @ [Photo (?k + 1)]"
    "unlinked st' = ul"
    using compare_frames_buffer [of ?st1 "now_time st" e st']
    by (auto split: if_splits)
  have k: "- 1 \<le> ?k" and d: "images_deque st = map Photo [max 0 (?k - 41) .. ?k]"
    and u: "unlinked st = map Photo [0 .. ?k - 42]"
    using assms(2) by (simp_all add: buffer_inv_def)
  have len: "length (images_deque st) = nat (?k - max 0 (?k - 41) + 1)"
    by (simp add: d)
  show ?thesis
  proof (cases "42 \<le> length (images_deque st)")
    case True
    then have k41: "41 \<le> ?k"
      using len k by (simp add: max_def split: if_splits)
    have "[?k - 41 .. ?k] = (?k - 41) # [?k - 40 .. ?k]"
      using upto_rec1 [of "?k - 41" ?k] by simp
    then have d': "images_deque st = Photo (?k - 41) # map Photo [?k - 40 .. ?k]"
      using d k41 by (simp add: max_def)
    from evict_oldest_full [OF ev True]
    have dq: "dq = map Photo [?k - 40 .. ?k]" and ul: "ul = unlinked st @ [Photo (?k - 41)]"
      by (simp_all add: d')
    have "[?k - 40 .. ?k + 1] = [?k - 40 .. ?k] @ [?k + 1]"
      by (rule upto_snoc) simp
    moreover have "[0 .. ?k - 41] = [0 .. ?k - 42] @ [?k - 41]"
      using upto_snoc [of 0 "?k - 42"] k41 by simp
    ultimately show ?thesis
      using same dq ul u k41 by (simp add: buffer_inv_def max_def)
  next
    case False
    then have k41: "?k < 41"
      using len k by (simp add: max_def split: if_splits)
    from False have "length (images_deque st) < 42" by simp
    from evict_oldest_room [OF ev this]
    have dq: "dq = images_deque st" and ul: "ul = unlinked st"
      by simp_all
    have "[0 .. ?k + 1] = [0 .. ?k] @ [?k + 1]"
      by (rule upto_snoc) (use k in simp)
    moreover have "max 0 (?k + 1 - 41) = 0" "max 0 (?k - 41) = 0"
      using k41 by simp_all
    moreover have "[0 .. ?k - 41] = []" "[0 .. ?k - 42] = []"
      using k41 by simp_all
    ultimately show ?thesis
      using same dq ul u d k by (simp add: buffer_inv_def)
  qed
qed

lemma acquisition_loop_buffer_inv:
  "buffer_inv st \<Longrightarrow> final_state (acquisition_loop start st envs) = Some st' \<Longrightarrow>
   buffer_inv st'"
proof (induction envs arbitrary: st)
  case Nil
  then show ?case by (simp split: if_splits)
next
  case (Cons e es)
  show ?case
  proof (cases "now_time st < start + nine_minutes")
    case True
    then obtain st1 where i: "iteration st e = Inr st1"
      using Cons.prems(2) by (cases "iteration st e") simp_all
    then have "final_state (acquisition_loop start st1 es) = Some st'"
      using Cons.prems(2) True by simp
    with iteration_buffer_inv [OF i Cons.prems(1)] show ?thesis
      by (rule Cons.IH)
  next
    case False
    then show ?thesis
      using Cons.prems by simp
  qed
qed

lemma initial_buffer_inv: "buffer_inv (initial_state s now0)"
  by (simp add: buffer_inv_def initial_state_def)

lemma quiet_sel:
  "clock quiet = 0" "unlink_raises quiet = None" "capture_raises quiet = None"
  "detected quiet = Inr ([], [])" "bf_match quiet = Inl Cv2Error"
  by (simp_all add: quiet_def world_answers_sel)

lemma compare_frames_quiet: "compare_frames st prev quiet = Inr st"
  by (simp add: compare_frames_def quiet_sel try_body_def calculate_matches_def)

lemma evict_oldest_quiet:
  "\<exists>dq ul. evict_oldest dq0 ul0 quiet = Inr (dq, ul)"
  by (cases dq0) (simp_all add: evict_oldest_def quiet_sel)

lemma iteration_quiet:
  "\<exists>st'. iteration st quiet = Inr st' \<and> k_counter st' = k_counter st + 1 \<and> now_time st' = 0"
proof -
  obtain dq ul where "evict_oldest (images_deque st) (unlinked st) quiet = Inr (dq, ul)"
    using evict_oldest_quiet by blast
  then show ?thesis
    by (simp add: iteration_def Let_def quiet_sel compare_frames_quiet)
qed

lemma quiet_run:
  "now_time st = 0 \<Longrightarrow>
   \<exists>st'. acquisition_loop 0 st (replicate n quiet) = Running st'
         \<and> k_counter st' = k_counter st + int n"
proof (induction n arbitrary: st)
  case 0
  then show ?case by (simp add: nine_minutes_def)
next
  case (Suc n)
  obtain st1 where i: "iteration st quiet = Inr st1" "k_counter st1 = k_counter st + 1"
      "now_time st1 = 0"
    using iteration_quiet by blast
  from Suc.IH [OF i(3)] obtain st' where
    "acquisition_loop 0 st1 (replicate n quiet) = Running st'"
    "k_counter st' = k_counter st1 + int n"
    by blast
  then show ?case
    using Suc.prems i by (simp add: nine_minutes_def)
qed

text \<open>
  Claim C5. At the end of every iteration of every run (the loop still running or ended at
  its time bound), with \<open>k\<close> the index of the last photo and so \<open>N = k + 1\<close> photos
  retained: the deque never holds more than 42 paths; it holds the photos
  \<open>max 0 (k - 41), ..., k\<close> in the order of retention; the deleted files are the photos
  \<open>0, ..., k - 42\<close> in that order. So for \<open>N > 42\<close> exactly \<open>N - 42\<close> files have been
  deleted and the deque holds exactly the 42 most recent photos. Each eviction removes the
  head of the deque, the oldest photo, and deletes that file. The photo \<open>k - 1\<close>, which
  is compared with photo \<open>k\<close>, is in the deque and is not among the deleted files.
\<close>

theorem frame_buffer_keeps_last_42:
  assumes "final_state (acquisition_loop start (initial_state s now0) envs) = Some st"
  shows "length (images_deque st) \<le> 42
    \<and> images_deque st = map Photo [max 0 (k_counter st - 41) .. k_counter st]
    \<and> unlinked st = map Photo [0 .. k_counter st - 42]
    \<and> (42 < k_counter st + 1 \<longrightarrow>
          length (unlinked st) = nat (k_counter st + 1) - 42
          \<and> length (images_deque st) = 42
          \<and> images_deque st = map Photo [k_counter st - 41 .. k_counter st])
    \<and> (1 \<le> k_counter st \<longrightarrow>
          Photo (k_counter st - 1) \<in> set (images_deque st)
          \<and> Photo (k_counter st - 1) \<notin> set (unlinked st))
    \<and> (evict_oldest dq ul e = Inr (dq', ul') \<and> 42 \<le> length dq \<longrightarrow>
          dq = hd dq # dq' \<and> ul' = ul @ [hd dq])"
proof -
  have "buffer_inv st"
    using initial_buffer_inv assms by (rule acquisition_loop_buffer_inv)
  then have k: "- 1 \<le> k_counter st"
    and d: "images_deque st = map Photo [max 0 (k_counter st - 41) .. k_counter st]"
    and u: "unlinked st = map Photo [0 .. k_counter st - 42]"
    by (simp_all add: buffer_inv_def)
  have l: "length (images_deque st) \<le> 42"
    using k by (auto simp add: d max_def)
  have big: "length (unlinked st) = nat (k_counter st + 1) - 42
          \<and> length (images_deque st) = 42
          \<and> images_deque st = map Photo [k_counter st - 41 .. k_counter st]"
    if "42 < k_counter st + 1"
    using that by (simp add: d u max_def)
  have prev: "Photo (k_counter st - 1) \<in> set (images_deque st)
          \<and> Photo (k_counter st - 1) \<notin> set (unlinked st)"
    if "1 \<le> k_counter st"
    using that by (auto simp: d u max_def)
  show ?thesis
    using l d u big prev evict_oldest_full [of dq ul e dq' ul'] by blast
qed

theorem frame_buffer_keeps_last_42_witness:
  "\<exists>st. acquisition_loop 0 (initial_state 418000 0) (replicate 44 quiet) = Running st
      \<and> k_counter st = 43
      \<and> length (images_deque st) = 42
      \<and> images_deque st = map Photo [2 .. 43]
      \<and> unlinked st = [Photo 0, Photo 1]
      \<and> Photo 42 \<in> set (images_deque st)"
proof -
  obtain st where r: "acquisition_loop 0 (initial_state 418000 0) (replicate 44 quiet) = Running st"
    and k: "k_counter st = k_counter (initial_state 418000 0) + int 44"
    using quiet_run [of "initial_state 418000 0" 44] by (auto simp: initial_state_sel)
  have k43: "k_counter st = 43"
    using k by (simp add: initial_state_sel)
  have f: "final_state (acquisition_loop 0 (initial_state 418000 0) (replicate 44 quiet)) = Some st"
    by (simp add: r)
  have u: "[0 .. 1] = [0, 1::int]"
    by (simp add: upto.simps)
  show ?thesis
    using frame_buffer_keeps_last_42 [OF f] r k43 u by simp
qed

section \<open>Which faults the loop survives\<close>

lemma iteration_raises_capture:
  assumes "evict_oldest (images_deque st) (unlinked st) e = Inr (dq, ul)"
    and "capture_raises e = Some y"
  shows "iteration st e = Inl y"
  using assms by (simp add: iteration_def Let_def)

lemma iteration_raises_detection:
  assumes "evict_oldest (images_deque st) (unlinked st) e = Inr (dq, ul)"
    and "capture_raises e = None" and "k_counter st + 1 \<noteq> 0" and "detected e = Inl y"
  shows "iteration st e = Inl y"
  using assms by (simp add: iteration_def Let_def compare_frames_def)

lemma iteration_caught:
  assumes "evict_oldest (images_deque st) (unlinked st) e = Inr (dq, ul)"
    and "capture_raises e = None" and "k_counter st + 1 \<noteq> 0"
    and "detected e = Inr (kp1, kp2)"
    and "try_body kp1 kp2 (bf_match e) (real_of_int (clock e - now_time st) / 1000000) = Inl x"
    and "x = Cv2Error \<or> x = ZeroDivisionError"
  shows "iteration st e =
     Inr (st\<lparr>k_counter := k_counter st + 1, now_time := clock e,
             images_deque := dq @ [Photo (k_counter st + 1)], unlinked := ul\<rparr>)"
  using assms by (auto simp add: iteration_def Let_def compare_frames_def)

lemma try_body_matcher_raises: "try_body kp1 kp2 (Inl x) dt = Inl x"
  by (simp add: try_body_def calculate_matches_def)

lemma measure_3_4: "measure_displacement [(0, 0)] [(3, 4)] (sort_key distance one_match) = Inr 5"
proof -
  have "sqrt 25 = 5"
    using real_sqrt_abs [of 5] by simp
  then show ?thesis
    by (simp add: measure_one_match distance_same distance_0_10 distance_3_4)
qed

lemma compare_frames_3_4:
  assumes "real_of_int (now_time st - prev) / 1000000 = 1"
  shows "compare_frames st prev (world_answers t (Inr ([(0, 0)], [(3, 4)])) (Inr one_match)) =
     Inr (st\<lparr>h_list := h_list st @ [spec_altitude 5 1 400000 8],
             v_list := v_list st @ [spec_velocity 5 1 400000 8]\<rparr>)"
  using compare_frames_measured [OF _ _ measure_3_4,
      of "world_answers t (Inr ([(0, 0)], [(3, 4)])) (Inr one_match)" st prev]
    assms solver_ok [of 5 1]
  by (simp add: world_answers_sel)

text \<open>
  Claim C2 as stated fails on the code. Feature detection (line 103) and capture (line 93)
  stand outside the \<^verbatim>\<open>try\<close> block: a \<^verbatim>\<open>cv2.error\<close> raised by detection
  in the second iteration, or an exception of \<^verbatim>\<open>cam.capture\<close>, leaves the loop,
  and the third frame pair is never processed.
\<close>

theorem detection_failure_halts_acquisition:
  "acquisition_loop 0 (initial_state 418000 0)
     [world_answers 1000000 (Inr ([], [])) (Inr []),
      world_answers 2000000 (Inl Cv2Error) (Inr []),
      world_answers 3000000 (Inr ([(0, 0)], [(3, 4)])) (Inr one_match)] = Raised Cv2Error
   \<and> acquisition_loop 0 (initial_state 418000 0)
     [world_answers 1000000 (Inr ([], [])) (Inr []),
      (world_answers 2000000 (Inr ([(0, 0)], [(3, 4)])) (Inr one_match))
         \<lparr>capture_raises := Some CameraError\<rparr>,
      world_answers 3000000 (Inr ([(0, 0)], [(3, 4)])) (Inr one_match)] = Raised CameraError"
  by (simp add: iteration_calm initial_state_sel nine_minutes_def compare_frames_def
      world_answers_sel)
     (simp add: iteration_def evict_oldest_def world_answers_def)

text \<open>
  Claim C2, amended. In an iteration that the loop enters and whose eviction step raises
  nothing: a \<^verbatim>\<open>cv2.error\<close> or \<^verbatim>\<open>ZeroDivisionError\<close> raised inside the
  \<^verbatim>\<open>try\<close> block (descriptor matching, coordinate extraction, mean displacement,
  solver) is caught, the iteration appends no sample and keeps the samples recorded so far,
  and the loop goes on with the next iteration; in particular a failure of the matcher on
  frame pair k does not prevent the samples of the pairs k-1 and k+1 from being recorded.
  An exception of the capture, or of feature detection, leaves the loop.
\<close>

theorem try_block_faults_are_skipped:
  assumes "now_time st < start + nine_minutes"
    and "evict_oldest (images_deque st) (unlinked st) e = Inr (dq, ul)"
  shows
   "(capture_raises e = None \<and> k_counter st + 1 \<noteq> 0 \<and> detected e = Inr (kp1, kp2)
       \<and> try_body kp1 kp2 (bf_match e) (real_of_int (clock e - now_time st) / 1000000) = Inl x
       \<and> (x = Cv2Error \<or> x = ZeroDivisionError)
     \<longrightarrow> acquisition_loop start st (e # es) =
         acquisition_loop start
           (st\<lparr>k_counter := k_counter st + 1, now_time := clock e,
               images_deque := dq @ [Photo (k_counter st + 1)], unlinked := ul\<rparr>) es)
    \<and> (capture_raises e = None \<and> k_counter st + 1 \<noteq> 0 \<and> detected e = Inr (kp1, kp2)
       \<and> bf_match e = Inl Cv2Error
     \<longrightarrow> acquisition_loop start st (e # es) =
         acquisition_loop start
           (st\<lparr>k_counter := k_counter st + 1, now_time := clock e,
               images_deque := dq @ [Photo (k_counter st + 1)], unlinked := ul\<rparr>) es)
    \<and> (capture_raises e = Some y \<longrightarrow> acquisition_loop start st (e # es) = Raised y)
    \<and> (capture_raises e = None \<and> k_counter st + 1 \<noteq> 0 \<and> detected e = Inl y
     \<longrightarrow> acquisition_loop start st (e # es) = Raised y)"
proof -
  have a: "acquisition_loop start st (e # es) =
         acquisition_loop start
           (st\<lparr>k_counter := k_counter st + 1, now_time := clock e,
               images_deque := dq @ [Photo (k_counter st + 1)], unlinked := ul\<rparr>) es"
    if "capture_raises e = None" "k_counter st + 1 \<noteq> 0" "detected e = Inr (kp1, kp2)"
       "try_body kp1 kp2 (bf_match e) (real_of_int (clock e - now_time st) / 1000000) = Inl x'"
       "x' = Cv2Error \<or> x' = ZeroDivisionError" for x'
    using assms(1) iteration_caught [OF assms(2) that] by simp
  have b: "acquisition_loop start st (e # es) =
         acquisition_loop start
           (st\<lparr>k_counter := k_counter st + 1, now_time := clock e,
               images_deque := dq @ [Photo (k_counter st + 1)], unlinked := ul\<rparr>) es"
    if "capture_raises e = None" "k_counter st + 1 \<noteq> 0" "detected e = Inr (kp1, kp2)"
       "bf_match e = Inl Cv2Error"
    using a [of Cv2Error] that by (simp add: try_body_matcher_raises)
  have c: "acquisition_loop start st (e # es) = Raised y" if "capture_raises e = Some y"
    using assms(1) iteration_raises_capture [OF assms(2) that] by simp
  have d: "acquisition_loop start st (e # es) = Raised y"
    if "capture_raises e = None" "k_counter st + 1 \<noteq> 0" "detected e = Inl y"
    using assms(1) iteration_raises_detection [OF assms(2) that] by simp
  show ?thesis
    using a [of x] b c d by blast
qed

theorem try_block_faults_are_skipped_witness:
  "acquisition_loop 0 (initial_state 418000 0)
     [world_answers 1000000 (Inr ([], [])) (Inr []),
      world_answers 2000000 (Inr ([(0, 0)], [(3, 4)])) (Inr one_match),
      world_answers 3000000 (Inr ([(0, 0)], [(3, 4)])) (Inl Cv2Error),
      world_answers 4000000 (Inr ([(0, 0)], [(3, 4)])) (Inr one_match)]
   = Running \<lparr>k_counter = 3, now_time = 4000000,
               images_deque = [Photo 0, Photo 1, Photo 2, Photo 3], unlinked = [],
               h_list = [418000, spec_altitude 5 1 400000 8, spec_altitude 5 1 400000 8],
               v_list = [spec_velocity 5 1 400000 8, spec_velocity 5 1 400000 8]\<rparr>"
proof -
  let ?e3 = "world_answers 3000000 (Inr ([(0, 0)], [(3, 4)])) (Inl Cv2Error)"
  let ?e4 = "world_answers 4000000 (Inr ([(0, 0)], [(3, 4)])) (Inr one_match)"
  let ?st2 = "\<lparr>k_counter = 1, now_time = 2000000, images_deque = [Photo 0, Photo 1],
               unlinked = [], h_list = [418000, spec_altitude 5 1 400000 8],
               v_list = [spec_velocity 5 1 400000 8]\<rparr>"
  let ?st3 = "\<lparr>k_counter = 2, now_time = 3000000, images_deque = [Photo 0, Photo 1, Photo 2],
               unlinked = [], h_list = [418000, spec_altitude 5 1 400000 8],
               v_list = [spec_velocity 5 1 400000 8]\<rparr>"
  have s12: "acquisition_loop 0 (initial_state 418000 0)
     [world_answers 1000000 (Inr ([], [])) (Inr []),
      world_answers 2000000 (Inr ([(0, 0)], [(3, 4)])) (Inr one_match), ?e3, ?e4]
     = acquisition_loop 0 ?st2 [?e3, ?e4]"
    by (simp add: iteration_calm initial_state_sel nine_minutes_def compare_frames_3_4
        initial_state_def del: acquisition_loop.simps(2))
       (simp add: iteration_calm nine_minutes_def compare_frames_3_4)
  have c: "now_time ?st2 < 0 + nine_minutes"
    by (simp add: nine_minutes_def)
  have ev: "evict_oldest (images_deque ?st2) (unlinked ?st2) ?e3 = Inr ([Photo 0, Photo 1], [])"
    by (simp add: evict_oldest_def)
  have s3: "acquisition_loop 0 ?st2 (?e3 # [?e4]) = acquisition_loop 0 ?st3 [?e4]"
    using try_block_faults_are_skipped
      [OF c ev, of "[(0, 0)]" "[(3, 4)]" Cv2Error "[?e4]" Cv2Error, THEN conjunct2, THEN conjunct1]
    by (simp add: world_answers_sel)
  have s4: "acquisition_loop 0 ?st3 [?e4] =
     Running \<lparr>k_counter = 3, now_time = 4000000,
               images_deque = [Photo 0, Photo 1, Photo 2, Photo 3], unlinked = [],
               h_list = [418000, spec_altitude 5 1 400000 8, spec_altitude 5 1 400000 8],
               v_list = [spec_velocity 5 1 400000 8, spec_velocity 5 1 400000 8]\<rparr>"
    by (simp add: iteration_calm nine_minutes_def compare_frames_3_4)
  show ?thesis
    using s12 s3 s4 by simp
qed

section \<open>The loop ends\<close>

text \<open>
  The loop is driven by the wall clock. Once one of the listed iterations reads a time at or
  past the 9-minute bound, the loop is over within the listed iterations, at the bound or by
  an exception, and \<open>main\<close> has a result.
\<close>

lemma compare_frames_now_time:
  "compare_frames st prev e = Inr st' \<Longrightarrow> now_time st' = now_time st"
  by (auto simp: compare_frames_def split: sum.splits prod.splits if_splits)

lemma iteration_now_time:
  assumes "iteration st e = Inr st'"
  shows "now_time st' = clock e"
  using assms
  by (auto simp: iteration_def Let_def split: sum.splits prod.splits option.splits if_splits
      dest!: compare_frames_now_time)

lemma acquisition_loop_late:
  "start + nine_minutes \<le> now_time st \<Longrightarrow> acquisition_loop start st envs = Done st"
  by (cases envs) simp_all

lemma acquisition_loop_ends:
  "list_ex (\<lambda>e. start + nine_minutes \<le> clock e) envs \<Longrightarrow>
   acquisition_loop start st envs \<noteq> Running st'"
proof (induction envs arbitrary: st)
  case Nil
  then show ?case by simp
next
  case (Cons e es)
  show ?case
  proof (cases "iteration st e")
    case (Inl x)
    then show ?thesis by simp
  next
    case (Inr st1)
    show ?thesis
    proof (cases "start + nine_minutes \<le> clock e")
      case True
      then have "acquisition_loop start st1 es = Done st1"
        using iteration_now_time [OF Inr] by (intro acquisition_loop_late) simp
      then show ?thesis
        using Inr by simp
    next
      case False
      then have "list_ex (\<lambda>e. start + nine_minutes \<le> clock e) es"
        using Cons.prems by simp
      from Cons.IH [OF this] show ?thesis
        using Inr by simp
    qed
  qed
qed

lemma main_ends_when_clock_passes_bound:
  "list_ex (\<lambda>e. start + nine_minutes \<le> clock e) envs \<Longrightarrow> main start now0 envs \<noteq> None"
  using acquisition_loop_ends [of start envs "initial_state 418000 now0"]
  by (cases "acquisition_loop start (initial_state 418000 now0) envs")
     (auto simp: main_def main_from_def main_with_def cam_close_def write_result_def finalize_eq)

section \<open>Closing the camera\<close>

text \<open>
  Claim C7 as stated fails on the code. \<^verbatim>\<open>cam.close()\<close> (line 121) follows the
  loop with no \<^verbatim>\<open>try\<close>/\<^verbatim>\<open>finally\<close> and no \<^verbatim>\<open>with\<close> block around
  it: when an exception leaves the loop, here a \<^verbatim>\<open>cv2.error\<close> of feature detection
  in the second iteration, the run ends with no call of \<^verbatim>\<open>cam.close()\<close>.
\<close>

theorem fatal_fault_skips_camera_close:
  "main 0 0
     [world_answers 1000000 (Inr ([], [])) (Inr []),
      world_answers 2000000 (Inl Cv2Error) (Inr [])]
   = Some \<lparr>raised = Some Cv2Error, cam_close_calls = 0, result_txt = []\<rparr>"
proof -
  have "acquisition_loop 0 (initial_state 418000 0)
     [world_answers 1000000 (Inr ([], [])) (Inr []),
      world_answers 2000000 (Inl Cv2Error) (Inr [])] = Raised Cv2Error"
    by (simp add: iteration_calm initial_state_sel nine_minutes_def compare_frames_def
        world_answers_sel)
  then show ?thesis
    by (simp add: main_def main_from_def main_with_def cam_close_def write_result_def)
qed

text \<open>
  Claim C7, amended. A run of \<open>main\<close> that ends has left the loop either at the 9-minute
  bound or by an exception. In the first case \<^verbatim>\<open>cam.close()\<close> is called exactly
  once; in the second it is not called at all, and nothing is written. It is never called
  more than once.
\<close>

theorem camera_closed_only_after_normal_end:
  assumes "main start now0 envs = Some w"
  shows "(acquisition_loop start (initial_state 418000 now0) envs = Done st
            \<longrightarrow> cam_close_calls w = 1)
    \<and> (acquisition_loop start (initial_state 418000 now0) envs = Raised x
            \<longrightarrow> cam_close_calls w = 0 \<and> raised w = Some x \<and> result_txt w = [])
    \<and> ((\<exists>st'. acquisition_loop start (initial_state 418000 now0) envs = Done st')
         \<or> (\<exists>x'. acquisition_loop start (initial_state 418000 now0) envs = Raised x'))
    \<and> cam_close_calls w \<le> 1"
  using assms
  by (cases "acquisition_loop start (initial_state 418000 now0) envs")
     (auto simp: main_def main_from_def main_with_def cam_close_def write_result_def finalize_eq)

theorem camera_closed_only_after_normal_end_witness:
  "main 0 0 [world_answers 600000000 (Inr ([], [])) (Inr [])]
     = Some \<lparr>raised = None, cam_close_calls = 1, result_txt = [''7.6677'']\<rparr>
   \<and> acquisition_loop 0 (initial_state 418000 0)
        [world_answers 600000000 (Inr ([], [])) (Inr [])]
     = Done \<lparr>k_counter = 0, now_time = 600000000, images_deque = [Photo 0], unlinked = [],
             h_list = [418000], v_list = []\<rparr>
   \<and> cam_close_calls \<lparr>raised = None, cam_close_calls = 1, result_txt = [''7.6677'']\<rparr> = 1
   \<and> main 0 0 [world_answers 1000000 (Inr ([], [])) (Inr []),
                 world_answers 2000000 (Inr ([], [])) (Inr [])
                   \<lparr>capture_raises := Some CameraError\<rparr>]
     = Some \<lparr>raised = Some CameraError, cam_close_calls = 0, result_txt = []\<rparr>"
proof -
  let ?ok = "[world_answers 600000000 (Inr ([], [])) (Inr [])]"
  let ?bad = "[world_answers 1000000 (Inr ([], [])) (Inr []),
                 world_answers 2000000 (Inr ([], [])) (Inr [])
                   \<lparr>capture_raises := Some CameraError\<rparr>]"
  have l: "acquisition_loop 0 (initial_state 418000 0) ?ok
     = Done \<lparr>k_counter = 0, now_time = 600000000, images_deque = [Photo 0], unlinked = [],
             h_list = [418000], v_list = []\<rparr>"
    by (rule loop_one_late_frame)
  have m: "main 0 0 ?ok = Some \<lparr>raised = None, cam_close_calls = 1, result_txt = [''7.6677'']\<rparr>"
    using l finalize_empty by (simp add: main_def main_from_def main_with_def cam_close_def write_result_def)
  have lb: "acquisition_loop 0 (initial_state 418000 0) ?bad = Raised CameraError"
    by (simp add: iteration_calm initial_state_sel nine_minutes_def)
       (simp add: iteration_def evict_oldest_def world_answers_def)
  have mb: "main 0 0 ?bad = Some \<lparr>raised = Some CameraError, cam_close_calls = 0, result_txt = []\<rparr>"
    using lb by (simp add: main_def main_from_def main_with_def cam_close_def write_result_def)
  show ?thesis
    using camera_closed_only_after_normal_end [OF m, of
        "\<lparr>k_counter = 0, now_time = 600000000, images_deque = [Photo 0], unlinked = [],
             h_list = [418000], v_list = []\<rparr>" CameraError]
      camera_closed_only_after_normal_end [OF mb, of "initial_state 418000 0" CameraError]
      l m mb
    by simp
qed

end
